theory Spec2Isabelle
  imports Main "HOL-Library.Word" "HOL-Library.Sublist"
begin

section \<open>The file-backed key-value store of \<open>src/local-kv.ts\<close>\<close>

text \<open>
  The class \<open>LocalKVStorage\<close> keeps a JavaScript \<open>Map\<close> from keys to items
  \<open>{ value: string; expiry?: number }\<close>, mirrors it into one JSON file and evicts
  expired items on every read. The embedding below passes the object's state
  explicitly: the \<open>Map\<close>, the file system as seen at \<open>storagePath\<close>, and the console.

  Conventions of the embedding:
  \<^item> a JavaScript string is the list of its UTF-16 code units, an \<open>ArrayBuffer\<close> the
    list of its bytes;
  \<^item> \<open>Date.now()\<close> is a parameter \<open>now\<close> of each operation that reads the clock, in
    milliseconds since the epoch (a natural number);
  \<^item> \<open>expirationTtl\<close> and \<open>expiry\<close> are integers: on whole numbers below \<open>2 ^ 53\<close> in
    magnitude the arithmetic of JavaScript numbers is exact, and fractional or
    non-finite numbers are outside the model;
  \<^item> a \<open>Map\<close> is the list of its entries in insertion order;
  \<^item> an \<open>async\<close> method is modelled by what it computes: a rejected promise is an
    error value. The calls of one process run one after the other; several processes on
    one file are outside the model.
\<close>

subsection \<open>Strings, buffers and the text codecs of the platform\<close>

type_synonym byte = "8 word"
type_synonym code_unit = "16 word"
type_synonym jsstring = "code_unit list"

text \<open>A string literal of the source, written with the characters of Isabelle.\<close>

definition js :: "string \<Rightarrow> jsstring" where
  "js s = map (\<lambda>c. of_nat (of_char c)) s"

text \<open>
  \<open>TextDecoder\<close> and \<open>TextEncoder\<close> are functions of the platform, not of the
  repository. They are modelled after the Encoding Standard: \<open>new TextDecoder()\<close> is
  the UTF-8 decoder in replacement mode that drops one leading byte order mark, and
  \<open>new TextEncoder().encode\<close> turns the string into scalar values (a lone surrogate
  becomes U+FFFD) and writes them in UTF-8.

  The decoder is the standard's state machine: the code point collected so far, the
  bytes seen and needed, and the bounds of the next continuation byte. On a byte
  outside the bounds it emits U+FFFD and reads the same byte again from the initial
  state. \<open>b mod 32\<close> is \<open>b & 0x1F\<close> and \<open>cp * 64 + b mod 64\<close> is
  \<open>(cp << 6) | (b & 0x3F)\<close>.
\<close>

function utf8_decoder :: "nat \<Rightarrow> nat \<Rightarrow> nat \<Rightarrow> nat \<Rightarrow> nat \<Rightarrow> nat list \<Rightarrow> nat list" where
  "utf8_decoder cp seen needed lo hi [] = (if needed \<noteq> 0 then [0xFFFD] else [])"
| "utf8_decoder cp seen needed lo hi (b # bs) =
     (if needed = 0 then
        (if b \<le> 0x7F then b # utf8_decoder cp seen needed lo hi bs
         else if 0xC2 \<le> b \<and> b \<le> 0xDF then utf8_decoder (b mod 32) seen 1 lo hi bs
         else if 0xE0 \<le> b \<and> b \<le> 0xEF then
           utf8_decoder (b mod 16) seen 2
             (if b = 0xE0 then 0xA0 else lo) (if b = 0xED then 0x9F else hi) bs
         else if 0xF0 \<le> b \<and> b \<le> 0xF4 then
           utf8_decoder (b mod 8) seen 3
             (if b = 0xF0 then 0x90 else lo) (if b = 0xF4 then 0x8F else hi) bs
         else 0xFFFD # utf8_decoder cp seen needed lo hi bs)
      else if b < lo \<or> hi < b then 0xFFFD # utf8_decoder 0 0 0 0x80 0xBF (b # bs)
      else if seen + 1 \<noteq> needed then
        utf8_decoder (cp * 64 + b mod 64) (seen + 1) needed 0x80 0xBF bs
      else (cp * 64 + b mod 64) # utf8_decoder 0 0 0 0x80 0xBF bs)"
  by pat_completeness auto
termination
  by (relation "measure (\<lambda>(cp, seen, needed, lo, hi, bs).
        2 * length bs + (if needed = 0 then 0 else 1))") auto

definition utf8_decode :: "nat list \<Rightarrow> nat list" where
  "utf8_decode bs = utf8_decoder 0 0 0 0x80 0xBF bs"

fun strip_bom :: "nat list \<Rightarrow> nat list" where
  "strip_bom [] = []"
| "strip_bom (c # cs) = (if c = 0xFEFF then cs else c # cs)"

fun utf16_encode :: "nat list \<Rightarrow> nat list" where
  "utf16_encode [] = []"
| "utf16_encode (c # cs) =
     (if c < 0x10000 then c # utf16_encode cs
      else (0xD800 + (c - 0x10000) div 1024) # (0xDC00 + (c - 0x10000) mod 1024)
           # utf16_encode cs)"

definition TextDecoder_decode :: "byte list \<Rightarrow> jsstring" where
  "TextDecoder_decode b = map of_nat (utf16_encode (strip_bom (utf8_decode (map unat b))))"

fun utf16_decode :: "nat list \<Rightarrow> nat list" where
  "utf16_decode [] = []"
| "utf16_decode [u] = [if 0xD800 \<le> u \<and> u \<le> 0xDFFF then 0xFFFD else u]"
| "utf16_decode (u # v # us) =
     (if 0xD800 \<le> u \<and> u \<le> 0xDBFF \<and> 0xDC00 \<le> v \<and> v \<le> 0xDFFF
      then (0x10000 + (u - 0xD800) * 1024 + (v - 0xDC00)) # utf16_decode us
      else (if 0xD800 \<le> u \<and> u \<le> 0xDFFF then 0xFFFD else u) # utf16_decode (v # us))"

definition utf8_bytes :: "nat \<Rightarrow> nat list" where
  "utf8_bytes c =
     (if c < 0x80 then [c]
      else if c < 0x800 then [0xC0 + c div 64, 0x80 + c mod 64]
      else if c < 0x10000 then
        [0xE0 + c div 4096, 0x80 + (c div 64) mod 64, 0x80 + c mod 64]
      else [0xF0 + c div 262144, 0x80 + (c div 4096) mod 64,
            0x80 + (c div 64) mod 64, 0x80 + c mod 64])"

definition utf8_encode :: "nat list \<Rightarrow> nat list" where
  "utf8_encode cs = concat (map utf8_bytes cs)"

definition TextEncoder_encode :: "jsstring \<Rightarrow> byte list" where
  "TextEncoder_encode s = map of_nat (utf8_encode (utf16_decode (map unat s)))"

subsection \<open>The JavaScript \<open>Map\<close> and the property order of objects\<close>

text \<open>
  \<open>Map.prototype.set\<close> replaces the value of a key that is present, in place, and
  appends a new key; \<open>get\<close> finds the entry of a key; \<open>delete\<close> removes it.
\<close>

fun Map_set :: "'k \<Rightarrow> 'v \<Rightarrow> ('k \<times> 'v) list \<Rightarrow> ('k \<times> 'v) list" where
  "Map_set k v [] = [(k, v)]"
| "Map_set k v ((k', v') # m) =
     (if k' = k then (k, v) # m else (k', v') # Map_set k v m)"

definition Map_get :: "'k \<Rightarrow> ('k \<times> 'v) list \<Rightarrow> 'v option" where
  "Map_get k m = map_of m k"

definition Map_delete :: "'k \<Rightarrow> ('k \<times> 'v) list \<Rightarrow> ('k \<times> 'v) list" where
  "Map_delete k m = filter (\<lambda>(k', v). k' \<noteq> k) m"

text \<open>\<open>new Map(entries)\<close> sets the entries one after the other.\<close>

definition new_Map :: "('k \<times> 'v) list \<Rightarrow> ('k \<times> 'v) list" where
  "new_Map entries = foldl (\<lambda>m (k, v). Map_set k v m) [] entries"

text \<open>
  An object is the list of its own properties in the order of their creation.
  \<open>Object.fromEntries\<close> defines the properties one after the other (a key defined
  twice keeps its place and takes the later value). \<open>Object.entries\<close>, and
  \<open>JSON.stringify\<close> with it, enumerate the array indices first, in ascending numeric
  order, then the other keys in the order of their creation. An array index is the
  canonical decimal numeral of a number below \<open>2 ^ 32 - 1\<close>.
\<close>

definition Object_fromEntries :: "('k \<times> 'v) list \<Rightarrow> ('k \<times> 'v) list" where
  "Object_fromEntries entries = foldl (\<lambda>obj (k, v). Map_set k v obj) [] entries"

definition is_digit :: "code_unit \<Rightarrow> bool" where
  "is_digit c \<longleftrightarrow> 0x30 \<le> c \<and> c \<le> 0x39"

definition digits_value :: "jsstring \<Rightarrow> nat" where
  "digits_value s = foldl (\<lambda>n c. 10 * n + (unat c - 48)) 0 s"

definition array_index :: "jsstring \<Rightarrow> nat option" where
  "array_index s =
     (if s \<noteq> [] \<and> list_all is_digit s \<and> (length s = 1 \<or> hd s \<noteq> 0x30)
         \<and> digits_value s < 2 ^ 32 - 1
      then Some (digits_value s) else None)"

definition Object_entries :: "(jsstring \<times> 'v) list \<Rightarrow> (jsstring \<times> 'v) list" where
  "Object_entries obj =
     sort_key (\<lambda>(k, v). the (array_index k)) (filter (\<lambda>(k, v). array_index k \<noteq> None) obj)
     @ filter (\<lambda>(k, v). array_index k = None) obj"

subsection \<open>The state of a store\<close>

text \<open>
  An item of the map: \<open>{ value: string; expiry?: number }\<close>. The field \<open>value\<close> is
  called \<open>val\<close> here. A missing \<open>expiry\<close> is \<open>None\<close>.
\<close>

record entry =
  val :: jsstring
  expiry :: "int option"

text \<open>
  The backing file is represented by what reading and parsing it gives: there is no
  file, it cannot be read, its text is not JSON, or its text is the JSON of an object
  of items (the persisted format) and \<open>JSON.parse\<close> returns that object.
  \<open>JSON.parse (JSON.stringify obj)\<close> is an object with the properties of \<open>obj\<close> in
  the order in which \<open>JSON.stringify\<close> enumerates them; a property \<open>expiry\<close> that is
  \<open>undefined\<close> is left out of the text and is \<open>undefined\<close> again when read. JSON
  of another shape is outside the model.
\<close>

datatype backing_file = NoFile | ReadError | NotJson | JsonObject "(jsstring \<times> entry) list"

text \<open>
  The file system as the store sees it: whether the directory of \<open>storagePath\<close>
  exists, whether \<open>mkdirSync\<close> and \<open>writeFileSync\<close> would succeed, and the file.
  A write that fails leaves the file as it was.
\<close>

record filesystem =
  dir_exists :: bool
  mkdir_ok :: bool
  write_ok :: bool
  content :: backing_file

datatype console_line = Warn_load_failed | Error_save_failed

datatype error = MkdirError | SyntaxError

record LocalKVStorage =
  data :: "(jsstring \<times> entry) list"
  fs :: filesystem
  console :: "console_line list"

subsection \<open>Construction and persistence\<close>

definition ensureStorageDirectory :: "filesystem \<Rightarrow> error + filesystem" where
  "ensureStorageDirectory f =
     (if \<not> dir_exists f then
        (if mkdir_ok f then Inr (f\<lparr>dir_exists := True\<rparr>)
         else Inl MkdirError)
      else Inr f)"

definition loadFromDisk :: "LocalKVStorage \<Rightarrow> LocalKVStorage" where
  "loadFromDisk st =
     (case content (fs st) of
        NoFile \<Rightarrow> st
      | JsonObject obj \<Rightarrow> st\<lparr>data := new_Map (Object_entries obj)\<rparr>
      | _ \<Rightarrow> st\<lparr>console := console st @ [Warn_load_failed], data := []\<rparr>)"

text \<open>
  The constructor: \<open>mkdirSync\<close> is not inside a \<open>try\<close>, so its failure leaves the
  constructor; the failures of \<open>loadFromDisk\<close> are caught there.
\<close>

definition constructor :: "filesystem \<Rightarrow> console_line list \<Rightarrow> error + LocalKVStorage" where
  "constructor f c =
     (case ensureStorageDirectory f of
        Inl e \<Rightarrow> Inl e
      | Inr f' \<Rightarrow> Inr (loadFromDisk \<lparr>data = [], fs = f', console = c\<rparr>))"

definition saveToDisk :: "LocalKVStorage \<Rightarrow> LocalKVStorage" where
  "saveToDisk st =
     (if dir_exists (fs st) \<and> write_ok (fs st) then
        st\<lparr>fs := (fs st)\<lparr>content := JsonObject (Object_entries (Object_fromEntries (data st)))\<rparr>\<rparr>
      else st\<lparr>console := console st @ [Error_save_failed]\<rparr>)"

subsection \<open>Eviction\<close>

text \<open>\<open>item.expiry && item.expiry < now\<close>: \<open>undefined\<close> and \<open>0\<close> are falsy.\<close>

definition is_expired :: "nat \<Rightarrow> entry \<Rightarrow> bool" where
  "is_expired now item =
     (case expiry item of None \<Rightarrow> False | Some e \<Rightarrow> e \<noteq> 0 \<and> e < int now)"

text \<open>
  The loop of \<open>cleanupExpired\<close> visits every entry the map had when the loop began
  (deleting the entry being visited does not disturb the iteration) and carries the
  map and the flag \<open>hasExpired\<close>.
\<close>

fun cleanup_loop ::
  "nat \<Rightarrow> (jsstring \<times> entry) list \<Rightarrow> (jsstring \<times> entry) list \<times> bool
   \<Rightarrow> (jsstring \<times> entry) list \<times> bool" where
  "cleanup_loop now [] acc = acc"
| "cleanup_loop now ((key, item) # rest) (m, hasExpired) =
     (if is_expired now item then cleanup_loop now rest (Map_delete key m, True)
      else cleanup_loop now rest (m, hasExpired))"

definition cleanupExpired :: "nat \<Rightarrow> LocalKVStorage \<Rightarrow> LocalKVStorage" where
  "cleanupExpired now st =
     (case cleanup_loop now (data st) (data st, False) of
        (m, hasExpired) \<Rightarrow>
          (if hasExpired then saveToDisk (st\<lparr>data := m\<rparr>) else st\<lparr>data := m\<rparr>))"

subsection \<open>The operations\<close>

datatype get_type = Text | Json | ArrayBuffer | Stream

text \<open>
  What \<open>get\<close> resolves to: \<open>null\<close>, the string, the value \<open>JSON.parse\<close> returns,
  a buffer, or a stream given by the chunks it delivers before it closes.
\<close>

datatype 'j get_result =
  Null | String jsstring | Parsed 'j | Buffer "byte list" | ReadableStream "byte list list"

text \<open>
  \<open>JSON.parse\<close> of a stored value is a parameter of \<open>get\<close>: a function that
  returns the parsed value, or \<open>None\<close> where \<open>JSON.parse\<close> throws a \<open>SyntaxError\<close>.
  The eviction that precedes the lookup stays in effect when \<open>get\<close> throws.
\<close>

definition get ::
  "(jsstring \<Rightarrow> 'j option) \<Rightarrow> nat \<Rightarrow> jsstring \<Rightarrow> get_type option \<Rightarrow> LocalKVStorage
   \<Rightarrow> (error + 'j get_result) \<times> LocalKVStorage" where
  "get JSON_parse now key type st =
     (let st' = cleanupExpired now st in
      (case Map_get key (data st') of
         None \<Rightarrow> Inr Null
       | Some item \<Rightarrow>
           (case type of
              Some Json \<Rightarrow>
                (case JSON_parse (val item) of
                   None \<Rightarrow> Inl SyntaxError
                 | Some j \<Rightarrow> Inr (Parsed j))
            | Some ArrayBuffer \<Rightarrow> Inr (Buffer (TextEncoder_encode (val item)))
            | Some Stream \<Rightarrow> Inr (ReadableStream [TextEncoder_encode (val item)])
            | _ \<Rightarrow> Inr (String (val item))),
       st'))"

datatype put_value = StringValue jsstring | ArrayBufferValue "byte list"

record put_options =
  expirationTtl :: "int option"

text \<open>
  \<open>options?.expirationTtl ? Date.now() + options.expirationTtl * 1000 : undefined\<close>:
  a missing \<open>options\<close>, a missing \<open>expirationTtl\<close> and the value \<open>0\<close> give no expiry.
\<close>

definition put_expiry :: "nat \<Rightarrow> put_options option \<Rightarrow> int option" where
  "put_expiry now options =
     (case options of
        None \<Rightarrow> None
      | Some opts \<Rightarrow>
          (case expirationTtl opts of
             None \<Rightarrow> None
           | Some ttl \<Rightarrow> if ttl \<noteq> 0 then Some (int now + ttl * 1000) else None))"

definition put ::
  "nat \<Rightarrow> jsstring \<Rightarrow> put_value \<Rightarrow> put_options option \<Rightarrow> LocalKVStorage \<Rightarrow> LocalKVStorage" where
  "put now key v options st =
     (let stringValue = (case v of ArrayBufferValue b \<Rightarrow> TextDecoder_decode b
                                 | StringValue s \<Rightarrow> s);
          expiry = put_expiry now options
      in saveToDisk (st\<lparr>data := Map_set key \<lparr>val = stringValue, expiry = expiry\<rparr> (data st)\<rparr>))"

definition delete :: "jsstring \<Rightarrow> LocalKVStorage \<Rightarrow> LocalKVStorage" where
  "delete key st = saveToDisk (st\<lparr>data := Map_delete key (data st)\<rparr>)"

text \<open>
  The argument of \<open>list\<close> is declared \<open>prefix?: string\<close>. Through the interface
  \<open>KVNamespace\<close>, which declares \<open>list(options?: { prefix?: string })\<close> and to which
  \<open>loadNodeEnv\<close> casts the store, the same parameter receives an options object.
  \<open>!prefix\<close> is true of \<open>undefined\<close> and of the empty string; \<open>startsWith\<close>
  converts its argument to a string, an object to \<open>[object Object]\<close>.
\<close>

datatype list_arg = Undefined | PrefixString jsstring | OptionsObject "jsstring option"

fun truthy :: "list_arg \<Rightarrow> bool" where
  "truthy Undefined = False"
| "truthy (PrefixString s) = (s \<noteq> [])"
| "truthy (OptionsObject p) = True"

fun ToString :: "list_arg \<Rightarrow> jsstring" where
  "ToString Undefined = js ''undefined''"
| "ToString (PrefixString s) = s"
| "ToString (OptionsObject p) = js ''[object Object]''"

definition startsWith :: "jsstring \<Rightarrow> jsstring \<Rightarrow> bool" where
  "startsWith s searchString = prefix searchString s"

record key_descriptor =
  name :: jsstring

record list_result =
  keys :: "key_descriptor list"

definition list :: "nat \<Rightarrow> list_arg \<Rightarrow> LocalKVStorage \<Rightarrow> list_result \<times> LocalKVStorage" where
  "list now prefix_arg st =
     (let st' = cleanupExpired now st in
      (\<lparr>keys = map (\<lambda>n. \<lparr>name = n\<rparr>)
                 (filter (\<lambda>key. \<not> truthy prefix_arg \<or> startsWith key (ToString prefix_arg))
                    (map fst (data st')))\<rparr>,
       st'))"

subsection \<open>Sequences of calls, and a restart\<close>

text \<open>
  A caller's calls, each with the clock reading at which it runs. \<open>step\<close> is the
  effect of one call on the store; what the call returns is given by \<open>get\<close> and
  \<open>list\<close> themselves.
\<close>

datatype call =
  Get jsstring "get_type option"
| Put jsstring put_value "put_options option"
| Delete jsstring
| List list_arg

fun step :: "(jsstring \<Rightarrow> 'j option) \<Rightarrow> nat \<times> call \<Rightarrow> LocalKVStorage \<Rightarrow> LocalKVStorage" where
  "step JSON_parse (now, Get key type) st = snd (get JSON_parse now key type st)"
| "step JSON_parse (now, Put key v options) st = put now key v options st"
| "step JSON_parse (now, Delete key) st = delete key st"
| "step JSON_parse (now, List prefix_arg) st = snd (list now prefix_arg st)"

fun run :: "(jsstring \<Rightarrow> 'j option) \<Rightarrow> (nat \<times> call) list \<Rightarrow> LocalKVStorage \<Rightarrow> LocalKVStorage" where
  "run JSON_parse [] st = st"
| "run JSON_parse (c # cs) st = run JSON_parse cs (step JSON_parse c st)"

fun puts_key :: "jsstring \<Rightarrow> nat \<times> call \<Rightarrow> bool" where
  "puts_key k (now, Put key v options) = (key = k)"
| "puts_key k (now, c) = False"

fun deletes_key :: "jsstring \<Rightarrow> nat \<times> call \<Rightarrow> bool" where
  "deletes_key k (now, Delete key) = (key = k)"
| "deletes_key k (now, c) = False"

text \<open>
  A restart: the process ends, and a new one constructs a store on the same path, that
  is, on the file system the old store leaves behind.
\<close>

definition restart :: "LocalKVStorage \<Rightarrow> error + LocalKVStorage" where
  "restart st = constructor (fs st) []"

subsection \<open>Notions used in the statements\<close>

text \<open>A list of entries is a \<open>Map\<close> when no key occurs twice.\<close>

definition is_Map :: "('k \<times> 'v) list \<Rightarrow> bool" where
  "is_Map m \<longleftrightarrow> distinct (map fst m)"

definition expired_keys :: "nat \<Rightarrow> (jsstring \<times> entry) list \<Rightarrow> jsstring set" where
  "expired_keys now es = {k. \<exists>item. (k, item) \<in> set es \<and> is_expired now item}"

text \<open>
  What a store constructed now would load from the file system, and the invariant of a
  store whose writes succeed: its map has no key twice, and the file holds the map.
\<close>

definition persisted :: "filesystem \<Rightarrow> (jsstring \<times> entry) list" where
  "persisted f = (case content f of JsonObject obj \<Rightarrow> new_Map (Object_entries obj) | _ \<Rightarrow> [])"

definition in_sync :: "LocalKVStorage \<Rightarrow> bool" where
  "in_sync st \<longleftrightarrow>
     is_Map (data st) \<and> dir_exists (fs st) \<and> write_ok (fs st)
     \<and> map_of (persisted (fs st)) = map_of (data st)"

text \<open>No entry of the map has the expiry timestamp \<open>0\<close>.\<close>

definition no_epoch_expiry :: "(jsstring \<times> entry) list \<Rightarrow> bool" where
  "no_epoch_expiry m \<longleftrightarrow> (\<forall>(k, item) \<in> set m. expiry item \<noteq> Some 0)"

text \<open>The keys a \<open>list\<close> result names.\<close>

definition names :: "list_result \<Rightarrow> jsstring set" where
  "names r = name ` set (keys r)"

text \<open>Unicode scalar values: the code points that are not surrogates.\<close>

definition scalar_value :: "nat \<Rightarrow> bool" where
  "scalar_value c \<longleftrightarrow> c < 0xD800 \<or> (0xE000 \<le> c \<and> c < 0x110000)"

text \<open>
  The \<open>list\<close> of the specification (section 4.1), for the comparison with the
  interface \<open>KVNamespace\<close>: it first evicts the entries whose \<open>expiresAt\<close> is in the
  past, then returns the set of all keys that start with the given prefix, or all keys
  if no prefix is given.
\<close>

definition spec_list :: "nat \<Rightarrow> jsstring option \<Rightarrow> (jsstring \<times> entry) list \<Rightarrow> jsstring set" where
  "spec_list now prefixFilter m =
     set (filter (\<lambda>k. case prefixFilter of None \<Rightarrow> True | Some p \<Rightarrow> prefix p k)
        (map fst (filter (\<lambda>(k, item). case expiry item of None \<Rightarrow> True
                                         | Some e \<Rightarrow> \<not> e < int now) m)))"

subsection \<open>Stores and file systems of the examples\<close>

definition disk0 :: filesystem where
  "disk0 = \<lparr>dir_exists = True, mkdir_ok = True, write_ok = True, content = NoFile\<rparr>"

definition store0 :: LocalKVStorage where
  "store0 = \<lparr>data = [], fs = disk0, console = []\<rparr>"

text \<open>A \<open>JSON.parse\<close> for the examples, which read no value as JSON.\<close>

definition no_json :: "jsstring \<Rightarrow> unit option" where
  "no_json s = None"

text \<open>A store with a live key \<open>a1\<close> and a key \<open>b\<close> that expired at 500 ms.\<close>

definition store1 :: LocalKVStorage where
  "store1 = \<lparr>data = [(js ''a1'', \<lparr>val = js ''x'', expiry = None\<rparr>),
                       (js ''b'', \<lparr>val = js ''y'', expiry = Some 500\<rparr>)],
              fs = disk0, console = []\<rparr>"

text \<open>
  A backing file in the persisted format whose only entry has the expiry timestamp 0:
  \<open>{ "k": { "value": "v", "expiry": 0 } }\<close>.
\<close>

definition disk_epoch :: filesystem where
  "disk_epoch = \<lparr>dir_exists = True, mkdir_ok = True, write_ok = True,
                  content = JsonObject [(js ''k'', \<lparr>val = js ''v'', expiry = Some 0\<rparr>)]\<rparr>"

text \<open>A file system whose backing file exists and is not JSON.\<close>

definition disk_garbage :: filesystem where
  "disk_garbage = \<lparr>dir_exists = True, mkdir_ok = True, write_ok = True, content = NotJson\<rparr>"

text \<open>
  The store after \<open>put("a1", "x", {expirationTtl: -1762000000})\<close> and \<open>put("b", "y")\<close>,
  both at the clock reading 1762000000000: the entry of \<open>a1\<close> has the expiry \<open>0\<close>.
\<close>

definition store_epoch :: LocalKVStorage where
  "store_epoch =
     put 1762000000000 (js ''b'') (StringValue (js ''y'')) None
       (put 1762000000000 (js ''a1'') (StringValue (js ''x''))
          (Some \<lparr>expirationTtl = Some (- 1762000000)\<rparr>) store0)"

section \<open>Properties\<close>

subsection \<open>The map operations\<close>

lemma map_of_Map_set: "map_of (Map_set k v m) = (map_of m)(k \<mapsto> v)"
  by (induction m) (auto simp: fun_eq_iff)

lemma keys_Map_set: "fst ` set (Map_set k v m) = insert k (fst ` set m)"
proof (induction m)
  case Nil
  then show ?case by simp
next
  case (Cons p m)
  show ?case
  proof (cases "fst p = k")
    case True
    then show ?thesis by (cases p) auto
  next
    case False
    then show ?thesis using Cons.IH by (cases p) (simp add: insert_commute)
  qed
qed

lemma is_Map_Map_set: "is_Map m \<Longrightarrow> is_Map (Map_set k v m)"
  unfolding is_Map_def
proof (induction m)
  case Nil
  then show ?case by simp
next
  case (Cons p m)
  have "fst p \<notin> fst ` set (Map_set k v m)" if "fst p \<noteq> k"
    using that Cons.prems by (simp add: keys_Map_set)
  with Cons show ?case by (cases p) auto
qed

lemma map_of_Map_delete: "map_of (Map_delete k m) = (map_of m)(k := None)"
  by (induction m) (auto simp: Map_delete_def fun_eq_iff)

lemma is_Map_filter: "is_Map m \<Longrightarrow> is_Map (filter P m)"
  by (simp add: is_Map_def distinct_map_filter)

lemma is_Map_Map_delete: "is_Map m \<Longrightarrow> is_Map (Map_delete k m)"
  by (simp add: Map_delete_def is_Map_filter)

lemma Map_delete_absent: "map_of m k = None \<Longrightarrow> Map_delete k m = m"
  by (induction m) (auto simp: Map_delete_def split: if_splits)

lemma map_of_filter_val:
  "is_Map m \<Longrightarrow>
   map_of (filter (\<lambda>(k, v). P v) m) k =
     (case map_of m k of None \<Rightarrow> None | Some v \<Rightarrow> if P v then Some v else None)"
proof (induction m)
  case Nil
  then show ?case by simp
next
  case (Cons p m)
  obtain k' v' where p: "p = (k', v')" by (cases p)
  from Cons.prems have notin: "k' \<notin> fst ` set m" and dm: "is_Map m"
    by (auto simp: is_Map_def p)
  from notin have none: "map_of m k' = None"
    by (simp add: map_of_eq_None_iff)
  show ?case using Cons.IH [OF dm] none by (auto simp: p)
qed

lemma cleanup_loop_eq:
  "cleanup_loop now es (m, h) =
     (filter (\<lambda>(k, v). k \<notin> expired_keys now es) m, h \<or> expired_keys now es \<noteq> {})"
proof (induction es arbitrary: m h)
  case Nil
  then show ?case by (simp add: expired_keys_def)
next
  case (Cons p es)
  obtain key item where p: "p = (key, item)" by (cases p)
  have ek: "expired_keys now ((key, item) # es) =
      (if is_expired now item then insert key (expired_keys now es) else expired_keys now es)"
    by (auto simp: expired_keys_def)
  show ?case
    unfolding p by (auto simp: ek Cons.IH Map_delete_def intro!: filter_cong)
qed

lemma filter_expired_keys:
  assumes "is_Map m"
  shows "filter (\<lambda>(k, v). k \<notin> expired_keys now m) m = filter (\<lambda>(k, v). \<not> is_expired now v) m"
proof (rule filter_cong [OF refl])
  fix x assume x: "x \<in> set m"
  obtain k v where kv: "x = (k, v)" by (cases x)
  have same: "v' = v" if "(k, v') \<in> set m" for v'
    using assms x that unfolding is_Map_def kv by (rule_tac eq_key_imp_eq_value)
  have "k \<in> expired_keys now m \<longleftrightarrow> is_expired now v"
  proof
    assume "k \<in> expired_keys now m"
    then obtain item where "(k, item) \<in> set m" "is_expired now item"
      unfolding expired_keys_def by blast
    with same show "is_expired now v" by blast
  next
    assume "is_expired now v"
    with x kv show "k \<in> expired_keys now m"
      unfolding expired_keys_def by blast
  qed
  then show "(case x of (k, v) \<Rightarrow> k \<notin> expired_keys now m) = (case x of (k, v) \<Rightarrow> \<not> is_expired now v)"
    by (simp add: kv)
qed

lemma data_cleanupExpired:
  "is_Map (data st) \<Longrightarrow>
   data (cleanupExpired now st) = filter (\<lambda>(k, v). \<not> is_expired now v) (data st)"
  by (simp add: cleanupExpired_def cleanup_loop_eq saveToDisk_def filter_expired_keys)

lemma data_saveToDisk: "data (saveToDisk st) = data st"
  by (simp add: saveToDisk_def)

lemma data_put:
  "data (put now key v options st) =
     Map_set key \<lparr>val = (case v of ArrayBufferValue b \<Rightarrow> TextDecoder_decode b | StringValue s \<Rightarrow> s),
                  expiry = put_expiry now options\<rparr> (data st)"
  by (simp add: put_def Let_def data_saveToDisk)

lemma data_delete: "data (delete key st) = Map_delete key (data st)"
  by (simp add: delete_def data_saveToDisk)

lemma Map_get_cleanupExpired:
  "is_Map (data st) \<Longrightarrow>
   Map_get k (data (cleanupExpired now st)) =
     (case Map_get k (data st) of
        None \<Rightarrow> None
      | Some item \<Rightarrow> if is_expired now item then None else Some item)"
  by (simp add: data_cleanupExpired Map_get_def map_of_filter_val split: option.splits)


subsection \<open>Reading what was written\<close>

lemma keys_cleanupExpired: "fst ` set (data (cleanupExpired now st)) \<subseteq> fst ` set (data st)"
  by (auto simp: cleanupExpired_def cleanup_loop_eq saveToDisk_def)

lemma Map_get_None_iff: "Map_get k m = None \<longleftrightarrow> k \<notin> fst ` set m"
  by (simp add: Map_get_def map_of_eq_None_iff)

lemma get_absent:
  "Map_get k (data st) = None \<Longrightarrow> fst (get JSON_parse now k type st) = Inr Null"
proof -
  assume "Map_get k (data st) = None"
  then have "k \<notin> fst ` set (data (cleanupExpired now st))"
    using keys_cleanupExpired [of now st] by (auto simp: Map_get_None_iff)
  then have "Map_get k (data (cleanupExpired now st)) = None"
    by (simp add: Map_get_None_iff)
  then show ?thesis by (simp add: get_def Let_def)
qed

lemma get_present:
  assumes "is_Map (data st)" and "Map_get k (data st) = Some item"
    and "type = None \<or> type = Some Text"
  shows "fst (get JSON_parse now k type st) =
     (if is_expired now item then Inr Null else Inr (String (val item)))"
  using assms by (auto simp: get_def Let_def Map_get_cleanupExpired)

lemma Map_get_put:
  "Map_get k (data (put now k v options st)) =
     Some \<lparr>val = (case v of ArrayBufferValue b \<Rightarrow> TextDecoder_decode b | StringValue s \<Rightarrow> s),
           expiry = put_expiry now options\<rparr>"
  by (simp add: data_put Map_get_def map_of_Map_set)

lemma is_Map_put: "is_Map (data st) \<Longrightarrow> is_Map (data (put now k v options st))"
  by (simp add: data_put is_Map_Map_set)

lemma put_then_get:
  assumes "is_Map (data st)" and "put_expiry now options = None"
    and "type = None \<or> type = Some Text"
  shows "fst (get JSON_parse now' k type (put now k (StringValue v) options st)) = Inr (String v)"
proof -
  let ?st = "put now k (StringValue v) options st"
  have "is_Map (data ?st)" using assms(1) by (rule is_Map_put)
  moreover have "Map_get k (data ?st) = Some \<lparr>val = v, expiry = None\<rparr>"
    by (simp add: Map_get_put assms(2))
  ultimately have "fst (get JSON_parse now' k type ?st) =
      (if is_expired now' \<lparr>val = v, expiry = None\<rparr> then Inr Null
       else Inr (String (val \<lparr>val = v, expiry = None\<rparr>)))"
    using assms(3) by (rule get_present)
  then show ?thesis by (simp add: is_expired_def)
qed

text \<open>
  C1: for every key \<open>k\<close> and every string \<open>v\<close>, \<open>put(k, v)\<close> with no TTL option
  (no options, or options without \<open>expirationTtl\<close>) followed by \<open>get(k)\<close> in the default
  or the text format returns \<open>v\<close>, whatever the clock readings and whether or not the
  write to disk succeeds.
\<close>

theorem put_get_roundtrip:
  assumes "is_Map (data st)"
    and "options = None \<or> options = Some \<lparr>expirationTtl = None\<rparr>"
    and "type = None \<or> type = Some Text"
  shows "fst (get JSON_parse now' k type (put now k (StringValue v) options st)) = Inr (String v)"
proof -
  from assms(2) have "put_expiry now options = None"
    by (auto simp: put_expiry_def)
  with assms(1) show ?thesis using assms(3) by (rule put_then_get)
qed

theorem put_get_roundtrip_witness:
  "is_Map (data store0) \<and>
   fst (get no_json 2000 (js ''a'') None
         (put 1000 (js ''a'') (StringValue (js ''1'')) None store0)) = Inr (String (js ''1''))"
  using put_get_roundtrip [where st = store0 and options = None and type = None
      and JSON_parse = no_json and now' = 2000 and k = "js ''a''"
      and now = 1000 and v = "js ''1''"]
  by (simp add: store0_def is_Map_def)

text \<open>
  C7: for every key \<open>k\<close>, present or not, \<open>delete(k)\<close> has no error result and a
  following \<open>get(k)\<close> returns \<open>null\<close>, in every format; deleting an absent key leaves
  the map as it was.
\<close>

theorem delete_then_get:
  "fst (get JSON_parse now k type (delete k st)) = Inr Null
   \<and> (Map_get k (data st) = None \<longrightarrow> data (delete k st) = data st)"
proof
  have "Map_get k (data (delete k st)) = None"
    by (simp add: data_delete Map_get_def map_of_Map_delete)
  then show "fst (get JSON_parse now k type (delete k st)) = Inr Null"
    by (rule get_absent)
  show "Map_get k (data st) = None \<longrightarrow> data (delete k st) = data st"
    by (simp add: data_delete Map_get_def Map_delete_absent)
qed

theorem delete_then_get_witness:
  "Map_get (js ''a'') (data store0) = None
   \<and> fst (get no_json 7 (js ''a'') None (delete (js ''a'') store0)) = Inr Null
   \<and> data (delete (js ''a'') store0) = data store0"
  using delete_then_get [where JSON_parse = no_json and now = 7
      and k = "js ''a''" and type = None and st = store0]
  by (simp add: store0_def Map_get_def)

subsection \<open>Sequences of calls\<close>

lemma is_Map_cleanupExpired: "is_Map (data st) \<Longrightarrow> is_Map (data (cleanupExpired now st))"
  by (simp add: data_cleanupExpired is_Map_filter)

lemma data_get: "data (snd (get JSON_parse now key type st)) = data (cleanupExpired now st)"
  by (simp add: get_def Let_def)

lemma data_list: "data (snd (list now prefix_arg st)) = data (cleanupExpired now st)"
  by (simp add: list_def Let_def)

lemma is_Map_delete: "is_Map (data st) \<Longrightarrow> is_Map (data (delete k st))"
  by (simp add: data_delete is_Map_Map_delete)

lemma is_Map_step: "is_Map (data st) \<Longrightarrow> is_Map (data (step JSON_parse c st))"
proof (cases c)
  case (Pair now cl)
  assume "is_Map (data st)"
  then show ?thesis unfolding Pair
    by (cases cl) (simp_all add: data_get data_list is_Map_cleanupExpired is_Map_put is_Map_delete)
qed

lemma is_Map_run: "is_Map (data st) \<Longrightarrow> is_Map (data (run JSON_parse cs st))"
  by (induction cs arbitrary: st) (simp_all add: is_Map_step)

lemma Map_get_step_no_put:
  assumes "is_Map (data st)" and "\<not> puts_key k c"
  shows "Map_get k (data (step JSON_parse c st)) = None
         \<or> Map_get k (data (step JSON_parse c st)) = Map_get k (data st)"
proof (cases c)
  case (Pair now cl)
  show ?thesis
  proof (cases cl)
    case (Get key type)
    then show ?thesis unfolding Pair
      by (simp add: data_get Map_get_cleanupExpired [OF assms(1)] split: option.splits)
  next
    case (Put key v options)
    with assms(2) Pair have "key \<noteq> k" by simp
    then show ?thesis unfolding Pair Put
      by (simp add: data_put Map_get_def map_of_Map_set)
  next
    case (Delete key)
    then show ?thesis unfolding Pair
      by (simp add: data_delete Map_get_def map_of_Map_delete)
  next
    case (List prefix_arg)
    then show ?thesis unfolding Pair
      by (simp add: data_list Map_get_cleanupExpired [OF assms(1)] split: option.splits)
  qed
qed

lemma Map_get_run_no_put:
  assumes "is_Map (data st)" and "list_all (\<lambda>c. \<not> puts_key k c) cs"
  shows "Map_get k (data (run JSON_parse cs st)) = None
         \<or> Map_get k (data (run JSON_parse cs st)) = Map_get k (data st)"
  using assms
proof (induction cs arbitrary: st)
  case Nil
  then show ?case by simp
next
  case (Cons c cs)
  from Cons.prems have m: "is_Map (data (step JSON_parse c st))"
    and np: "\<not> puts_key k c" and rest: "list_all (\<lambda>c. \<not> puts_key k c) cs"
    by (simp_all add: is_Map_step)
  from Cons.IH [OF m rest] Map_get_step_no_put [OF Cons.prems(1) np, of JSON_parse]
  show ?case by auto
qed

lemma Map_get_step_kept:
  assumes "is_Map (data st)" and "Map_get k (data st) = Some item"
    and "expiry item = None" and "\<not> puts_key k c" and "\<not> deletes_key k c"
  shows "Map_get k (data (step JSON_parse c st)) = Some item"
proof (cases c)
  case (Pair now cl)
  have ne: "\<not> is_expired now item" using assms(3) by (simp add: is_expired_def)
  show ?thesis
  proof (cases cl)
    case (Get key type)
    then show ?thesis unfolding Pair
      by (simp add: data_get Map_get_cleanupExpired [OF assms(1)] assms(2) ne)
  next
    case (Put key v options)
    with assms(4) Pair have "key \<noteq> k" by simp
    then show ?thesis using assms(2) unfolding Pair Put
      by (simp add: data_put Map_get_def map_of_Map_set)
  next
    case (Delete key)
    with assms(5) Pair have "key \<noteq> k" by simp
    then show ?thesis using assms(2) unfolding Pair Delete
      by (simp add: data_delete Map_get_def map_of_Map_delete)
  next
    case (List prefix_arg)
    then show ?thesis unfolding Pair
      by (simp add: data_list Map_get_cleanupExpired [OF assms(1)] assms(2) ne)
  qed
qed

lemma Map_get_run_kept:
  assumes "is_Map (data st)" and "Map_get k (data st) = Some item"
    and "expiry item = None"
    and "list_all (\<lambda>c. \<not> puts_key k c \<and> \<not> deletes_key k c) cs"
  shows "Map_get k (data (run JSON_parse cs st)) = Some item"
  using assms(1,2,4)
proof (induction cs arbitrary: st)
  case Nil
  then show ?case by simp
next
  case (Cons c cs)
  from Cons.prems have c: "\<not> puts_key k c" "\<not> deletes_key k c"
    and rest: "list_all (\<lambda>c. \<not> puts_key k c \<and> \<not> deletes_key k c) cs"
    by simp_all
  have m: "is_Map (data (step JSON_parse c st))"
    using Cons.prems(1) by (rule is_Map_step)
  have g: "Map_get k (data (step JSON_parse c st)) = Some item"
    using Cons.prems(1,2) assms(3) c by (rule Map_get_step_kept)
  from Cons.IH [OF m g rest] show ?case by simp
qed

text \<open>A get of a key whose entry, if any, is expired returns null.\<close>

lemma get_expired:
  assumes "is_Map (data st)"
    and "Map_get k (data st) = None \<or> (\<exists>item. Map_get k (data st) = Some item \<and> is_expired now item)"
  shows "fst (get JSON_parse now k type st) = Inr Null"
proof -
  have "Map_get k (data (cleanupExpired now st)) = None"
    using assms(2) by (auto simp: Map_get_cleanupExpired [OF assms(1)])
  then show ?thesis by (simp add: get_def Let_def)
qed

lemma names_list:
  "names (fst (list now prefix_arg st)) =
     {k \<in> fst ` set (data (cleanupExpired now st)).
        \<not> truthy prefix_arg \<or> startsWith k (ToString prefix_arg)}"
proof -
  have "name ` (\<lambda>n. \<lparr>name = n\<rparr>) ` S = S" for S :: "jsstring set"
    by (simp add: image_image)
  then show ?thesis
    by (simp add: names_def list_def Let_def)
qed

lemma not_listed_expired:
  assumes "is_Map (data st)"
    and "Map_get k (data st) = None \<or> (\<exists>item. Map_get k (data st) = Some item \<and> is_expired now item)"
  shows "k \<notin> names (fst (list now prefix_arg st))"
    and "k \<notin> fst ` set (data (cleanupExpired now st))"
proof -
  have "Map_get k (data (cleanupExpired now st)) = None"
    using assms(2) by (auto simp: Map_get_cleanupExpired [OF assms(1)])
  then show *: "k \<notin> fst ` set (data (cleanupExpired now st))"
    by (simp add: Map_get_None_iff)
  then show "k \<notin> names (fst (list now prefix_arg st))"
    by (simp add: names_list)
qed

subsection \<open>Time to live\<close>

text \<open>The definitions that evaluate a call on a concrete store.\<close>

lemmas eval_defs = get_def put_def delete_def list_def store0_def store1_def disk0_def
  put_expiry_def saveToDisk_def cleanupExpired_def is_expired_def Map_get_def Map_delete_def
  js_def Let_def startsWith_def names_def no_json_def is_Map_def

text \<open>
  C3, as amended: for every key \<open>k\<close>, string \<open>v\<close> and positive \<open>t\<close>, after
  \<open>put(k, v, {expirationTtl: t})\<close> at clock reading \<open>now\<close>, a \<open>get(k)\<close> at any clock
  reading up to and including \<open>now + 1000 * t\<close> (an immediate one among them) returns
  \<open>v\<close>; and after any calls that do not put \<open>k\<close> again, every \<open>get(k)\<close> at a clock
  reading strictly later than \<open>now + 1000 * t\<close> returns \<open>null\<close>.
\<close>

theorem ttl_put_then_get:
  assumes "is_Map (data st)" and "0 < t" and "type = None \<or> type = Some Text"
  shows "(int soon \<le> int now + t * 1000 \<longrightarrow>
            fst (get JSON_parse soon k type
                  (put now k (StringValue v) (Some \<lparr>expirationTtl = Some t\<rparr>) st))
            = Inr (String v))
       \<and> (int now + t * 1000 < int later \<and> list_all (\<lambda>c. \<not> puts_key k c) cs \<longrightarrow>
            fst (get JSON_parse later k type'
                  (run JSON_parse cs
                    (put now k (StringValue v) (Some \<lparr>expirationTtl = Some t\<rparr>) st)))
            = Inr Null)"
proof (intro conjI impI)
  let ?st = "put now k (StringValue v) (Some \<lparr>expirationTtl = Some t\<rparr>) st"
  let ?item = "\<lparr>val = v, expiry = Some (int now + t * 1000)\<rparr>"
  have m: "is_Map (data ?st)" using assms(1) by (rule is_Map_put)
  have g: "Map_get k (data ?st) = Some ?item"
    using assms(2) by (simp add: Map_get_put put_expiry_def)
  {
    assume "int soon \<le> int now + t * 1000"
    then have "\<not> is_expired soon ?item" by (simp add: is_expired_def)
    then show "fst (get JSON_parse soon k type ?st) = Inr (String v)"
      using get_present [OF m g assms(3), of JSON_parse soon] by simp
  }
  {
    assume a: "int now + t * 1000 < int later \<and> list_all (\<lambda>c. \<not> puts_key k c) cs"
    then have e: "is_expired later ?item" using assms(2) by (simp add: is_expired_def)
    have m': "is_Map (data (run JSON_parse cs ?st))" using m by (rule is_Map_run)
    from a have "Map_get k (data (run JSON_parse cs ?st)) = None
        \<or> Map_get k (data (run JSON_parse cs ?st)) = Map_get k (data ?st)"
      using Map_get_run_no_put [OF m, of k cs JSON_parse] by simp
    with g e have "Map_get k (data (run JSON_parse cs ?st)) = None
        \<or> (\<exists>item. Map_get k (data (run JSON_parse cs ?st)) = Some item \<and> is_expired later item)"
      by auto
    with m' show "fst (get JSON_parse later k type' (run JSON_parse cs ?st)) = Inr Null"
      by (rule get_expired)
  }
qed

theorem ttl_put_then_get_witness:
  "fst (get no_json 1000 (js ''k'') None
         (put 1000 (js ''k'') (StringValue (js ''v''))
             (Some \<lparr>expirationTtl = Some 1\<rparr>) store0))
     = Inr (String (js ''v''))
   \<and> fst (get no_json 2001 (js ''k'') None
         (run no_json [(1500, List Undefined), (1600, Delete (js ''z''))]
           (put 1000 (js ''k'') (StringValue (js ''v''))
               (Some \<lparr>expirationTtl = Some 1\<rparr>) store0)))
     = Inr Null"
  using ttl_put_then_get [where st = store0 and t = 1 and type = None and now = 1000
      and soon = 1000 and later = 2001 and k = "js ''k''" and v = "js ''v''"
      and JSON_parse = no_json and type' = None
      and cs = "[(1500, List Undefined), (1600, Delete (js ''z''))]"]
  by (simp add: store0_def is_Map_def)

text \<open>
  C3 as stated fails at the instant the time to live has elapsed: the comparison of
  \<open>cleanupExpired\<close> is strict, so a \<open>get\<close> exactly \<open>t\<close> seconds after the \<open>put\<close> still
  returns the value.
\<close>

theorem ttl_boundary_counterexample:
  "int 2000 = int 1000 + 1 * 1000
   \<and> fst (get no_json 2000 (js ''k'') None
         (put 1000 (js ''k'') (StringValue (js ''v''))
             (Some \<lparr>expirationTtl = Some 1\<rparr>) store0))
     = Inr (String (js ''v''))
   \<and> fst (get no_json 2000 (js ''k'') None
         (put 1000 (js ''k'') (StringValue (js ''v''))
             (Some \<lparr>expirationTtl = Some 1\<rparr>) store0))
     \<noteq> Inr Null"
  by (simp add: eval_defs)

text \<open>
  Zero and negative times to live, away from the expiry \<open>0\<close>:
  \<open>put(k, v, {expirationTtl: 0})\<close> stores an entry with no expiry,
  which every later \<open>get(k)\<close> returns as long as \<open>k\<close> is neither put again nor deleted;
  \<open>put(k, v, {expirationTtl: t})\<close> with negative \<open>t\<close> and \<open>now + 1000 * t\<close> other than
  \<open>0\<close> stores an entry whose expiry lies before \<open>now\<close>, so that, after any calls that do
  not put \<open>k\<close> again, every \<open>get(k)\<close> at a clock reading from \<open>now\<close> on returns \<open>null\<close>, no
  \<open>list\<close> names \<open>k\<close>, and after either call the entry is gone from the map.
\<close>

theorem zero_and_negative_ttl:
  assumes "is_Map (data st)" and "type = None \<or> type = Some Text"
  shows "(list_all (\<lambda>c. \<not> puts_key k c \<and> \<not> deletes_key k c) cs \<longrightarrow>
            Map_get k (data (put now k (StringValue v) (Some \<lparr>expirationTtl = Some 0\<rparr>) st))
              = Some \<lparr>val = v, expiry = None\<rparr>
            \<and> fst (get JSON_parse later k type
                  (run JSON_parse cs
                    (put now k (StringValue v) (Some \<lparr>expirationTtl = Some 0\<rparr>) st)))
              = Inr (String v))
       \<and> (t < 0 \<and> int now + t * 1000 \<noteq> 0 \<and> now \<le> later
            \<and> list_all (\<lambda>c. \<not> puts_key k c) cs \<longrightarrow>
            Map_get k (data (put now k (StringValue v) (Some \<lparr>expirationTtl = Some t\<rparr>) st))
              = Some \<lparr>val = v, expiry = Some (int now + t * 1000)\<rparr>
            \<and> int now + t * 1000 < int now
            \<and> fst (get JSON_parse later k type'
                  (run JSON_parse cs
                    (put now k (StringValue v) (Some \<lparr>expirationTtl = Some t\<rparr>) st)))
              = Inr Null
            \<and> k \<notin> fst ` set (data (snd (get JSON_parse later k type'
                  (run JSON_parse cs
                    (put now k (StringValue v) (Some \<lparr>expirationTtl = Some t\<rparr>) st)))))
            \<and> k \<notin> names (fst (list later prefix_arg
                  (run JSON_parse cs
                    (put now k (StringValue v) (Some \<lparr>expirationTtl = Some t\<rparr>) st))))
            \<and> k \<notin> fst ` set (data (snd (list later prefix_arg
                  (run JSON_parse cs
                    (put now k (StringValue v) (Some \<lparr>expirationTtl = Some t\<rparr>) st))))))"
proof (intro conjI impI)
  let ?z = "put now k (StringValue v) (Some \<lparr>expirationTtl = Some 0\<rparr>) st"
  let ?zi = "\<lparr>val = v, expiry = None\<rparr>"
  have mz: "is_Map (data ?z)" using assms(1) by (rule is_Map_put)
  show gz: "Map_get k (data ?z) = Some ?zi"
    by (simp add: Map_get_put put_expiry_def)
  {
    assume a: "list_all (\<lambda>c. \<not> puts_key k c \<and> \<not> deletes_key k c) cs"
    have "is_Map (data (run JSON_parse cs ?z))" using mz by (rule is_Map_run)
    moreover have "Map_get k (data (run JSON_parse cs ?z)) = Some ?zi"
      using mz gz _ a by (rule Map_get_run_kept) simp
    ultimately have "fst (get JSON_parse later k type (run JSON_parse cs ?z)) =
        (if is_expired later ?zi then Inr Null else Inr (String (val ?zi)))"
      using assms(2) by (rule get_present)
    then show "fst (get JSON_parse later k type (run JSON_parse cs ?z)) = Inr (String v)"
      by (simp add: is_expired_def)
  }
next
  let ?n = "put now k (StringValue v) (Some \<lparr>expirationTtl = Some t\<rparr>) st"
  let ?ni = "\<lparr>val = v, expiry = Some (int now + t * 1000)\<rparr>"
  assume a: "t < 0 \<and> int now + t * 1000 \<noteq> 0 \<and> now \<le> later
            \<and> list_all (\<lambda>c. \<not> puts_key k c) cs"
  have mn: "is_Map (data ?n)" using assms(1) by (rule is_Map_put)
  have gn: "Map_get k (data ?n) = Some ?ni"
    using a by (simp add: Map_get_put put_expiry_def)
  have e: "is_expired later ?ni" using a by (simp add: is_expired_def)
  have m': "is_Map (data (run JSON_parse cs ?n))" using mn by (rule is_Map_run)
  from a have "Map_get k (data (run JSON_parse cs ?n)) = None
      \<or> Map_get k (data (run JSON_parse cs ?n)) = Map_get k (data ?n)"
    using Map_get_run_no_put [OF mn, of k cs JSON_parse] by simp
  with gn e have gone: "Map_get k (data (run JSON_parse cs ?n)) = None
      \<or> (\<exists>item. Map_get k (data (run JSON_parse cs ?n)) = Some item \<and> is_expired later item)"
    by auto
  have "Map_get k (data ?n) = Some ?ni
     \<and> int now + t * 1000 < int now
     \<and> fst (get JSON_parse later k type' (run JSON_parse cs ?n)) = Inr Null
     \<and> k \<notin> fst ` set (data (snd (get JSON_parse later k type' (run JSON_parse cs ?n))))
     \<and> k \<notin> names (fst (list later prefix_arg (run JSON_parse cs ?n)))
     \<and> k \<notin> fst ` set (data (snd (list later prefix_arg (run JSON_parse cs ?n))))"
    using gn a get_expired [OF m' gone] not_listed_expired [OF m' gone]
    by (simp add: data_get data_list)
  then show "Map_get k (data ?n) = Some ?ni"
    and "int now + t * 1000 < int now"
    and "fst (get JSON_parse later k type' (run JSON_parse cs ?n)) = Inr Null"
    and "k \<notin> fst ` set (data (snd (get JSON_parse later k type' (run JSON_parse cs ?n))))"
    and "k \<notin> names (fst (list later prefix_arg (run JSON_parse cs ?n)))"
    and "k \<notin> fst ` set (data (snd (list later prefix_arg (run JSON_parse cs ?n))))"
    by simp_all
qed

theorem zero_and_negative_ttl_witness:
  "fst (get no_json 9000 (js ''k'') None
         (run no_json [(7000, List Undefined), (8000, Get (js ''k'') None)]
           (put 5000 (js ''k'') (StringValue (js ''v''))
               (Some \<lparr>expirationTtl = Some 0\<rparr>) store0)))
     = Inr (String (js ''v''))
   \<and> fst (get no_json 5000 (js ''k'') None
         (run no_json []
           (put 5000 (js ''k'') (StringValue (js ''v''))
               (Some \<lparr>expirationTtl = Some (- 1)\<rparr>) store0)))
     = Inr Null"
  using zero_and_negative_ttl [where st = store0 and type = None and now = 5000
      and later = 9000 and k = "js ''k''" and v = "js ''v''" and JSON_parse = no_json
      and cs = "[(7000, List Undefined), (8000, Get (js ''k'') None)]"]
    zero_and_negative_ttl [where st = store0 and type = None and now = 5000 and t = "- 1"
      and later = 5000 and k = "js ''k''" and v = "js ''v''" and JSON_parse = no_json
      and type' = None and cs = "[]"]
  by (simp add: store0_def is_Map_def js_def)

text \<open>
  C10 requires that a \<open>put\<close> with a negative time to live stores an entry that every
  later \<open>get\<close> or \<open>list\<close> evicts. The code misses the time to live that cancels the
  clock reading: the stored expiry is \<open>0\<close>, which \<open>cleanupExpired\<close> takes for no expiry,
  and \<open>get\<close> returns the value.
\<close>

theorem negative_ttl_not_evicted:
  "(- 1762000000 :: int) < 0
   \<and> fst (get no_json 1762000060000 (js ''k'') None
         (put 1762000000000 (js ''k'') (StringValue (js ''v''))
             (Some \<lparr>expirationTtl = Some (- 1762000000)\<rparr>) store0))
     = Inr (String (js ''v''))
   \<and> fst (get no_json 1762000060000 (js ''k'') None
         (put 1762000000000 (js ''k'') (StringValue (js ''v''))
             (Some \<lparr>expirationTtl = Some (- 1762000000)\<rparr>) store0))
     \<noteq> Inr Null"
  by (simp add: eval_defs)

theorem negative_ttl_not_evicted_witness:
  "Map_get (js ''k'')
     (data (snd (get no_json 1762000060000 (js ''k'') None
       (put 1762000000000 (js ''k'') (StringValue (js ''v''))
           (Some \<lparr>expirationTtl = Some (- 1762000000)\<rparr>) store0))))
     = Some \<lparr>val = js ''v'', expiry = Some 0\<rparr>
   \<and> fst (get no_json 1762000060000 (js ''k'') None
         (put 1762000000000 (js ''k'') (StringValue (js ''v''))
             (Some \<lparr>expirationTtl = Some (- 1762000000)\<rparr>) store0))
     \<noteq> Inr Null"
  using negative_ttl_not_evicted by (simp add: eval_defs)

subsection \<open>Eviction and the keys of \<open>list\<close>\<close>

lemmas load_defs = constructor_def ensureStorageDirectory_def loadFromDisk_def new_Map_def
  Object_entries_def array_index_def is_digit_def digits_value_def disk_epoch_def

text \<open>
  C4 requires that no \<open>get\<close> or \<open>list\<close> ever returns an entry whose expiry has passed.
  The code misses the expiry timestamp \<open>0\<close>: \<open>item.expiry && item.expiry < now\<close> is false
  for it at every clock reading. Such an entry is stored by a \<open>put\<close> whose negative time
  to live cancels the clock reading, and is loaded from a backing file that holds
  \<open>"expiry": 0\<close>; \<open>get\<close> returns its value, \<open>list\<close> names its key, and it stays in the map.
\<close>

theorem expiry_zero_is_returned:
  "Map_get (js ''k'')
     (data (put 1762000000000 (js ''k'') (StringValue (js ''v''))
         (Some \<lparr>expirationTtl = Some (- 1762000000)\<rparr>) store0))
     = Some \<lparr>val = js ''v'', expiry = Some 0\<rparr>
   \<and> (0 :: int) < int 1762000060000
   \<and> fst (get no_json 1762000060000 (js ''k'') None
         (put 1762000000000 (js ''k'') (StringValue (js ''v''))
             (Some \<lparr>expirationTtl = Some (- 1762000000)\<rparr>) store0))
     = Inr (String (js ''v''))
   \<and> js ''k'' \<in> names (fst (list 1762000060000 Undefined
         (put 1762000000000 (js ''k'') (StringValue (js ''v''))
             (Some \<lparr>expirationTtl = Some (- 1762000000)\<rparr>) store0)))
   \<and> (case constructor disk_epoch [] of
         Inl e \<Rightarrow> False
       | Inr st \<Rightarrow>
           data st = [(js ''k'', \<lparr>val = js ''v'', expiry = Some 0\<rparr>)]
           \<and> fst (get no_json 1762000000000 (js ''k'') None st) = Inr (String (js ''v''))
           \<and> names (fst (list 1762000000000 Undefined st)) = {js ''k''}
           \<and> data (snd (get no_json 1762000000000 (js ''k'') None st)) = data st)"
  by (simp add: eval_defs load_defs)

theorem expiry_zero_is_returned_witness:
  "fst (get no_json 1762000060000 (js ''k'') None
         (put 1762000000000 (js ''k'') (StringValue (js ''v''))
             (Some \<lparr>expirationTtl = Some (- 1762000000)\<rparr>) store0))
     \<noteq> Inr Null"
  using expiry_zero_is_returned by simp

text \<open>
  C5 requires that a call through the signatures of \<open>KVNamespace\<close>, in particular
  \<open>list(options?: { prefix?: string })\<close>, behaves as section 4 prescribes. The method takes
  the options object for the prefix string: on a store with the live key \<open>a1\<close>,
  \<open>list({prefix: "a"})\<close> names no key, where the \<open>list\<close> of the specification with the
  prefix \<open>a\<close> (and the method itself, given the string) names \<open>a1\<close>.
\<close>

theorem list_options_object_ignored:
  "names (fst (list 1000 (OptionsObject (Some (js ''a''))) store1)) = {}
   \<and> spec_list 1000 (Some (js ''a'')) (data store1) = {js ''a1''}
   \<and> names (fst (list 1000 (PrefixString (js ''a'')) store1)) = {js ''a1''}"
  by (simp add: eval_defs spec_list_def)

theorem list_options_object_ignored_witness:
  "names (fst (list 1000 (OptionsObject (Some (js ''a''))) store1))
     \<noteq> spec_list 1000 (Some (js ''a'')) (data store1)"
  using list_options_object_ignored by simp

lemma keys_cleanupExpired_eq:
  assumes "is_Map (data st)"
  shows "fst ` set (data (cleanupExpired now st)) =
     {k. \<exists>item. Map_get k (data st) = Some item \<and> \<not> is_expired now item}"
proof -
  have "k \<in> fst ` set (data (cleanupExpired now st)) \<longleftrightarrow>
        (\<exists>item. Map_get k (data st) = Some item \<and> \<not> is_expired now item)" for k
  proof -
    have "k \<in> fst ` set (data (cleanupExpired now st)) \<longleftrightarrow>
          Map_get k (data (cleanupExpired now st)) \<noteq> None"
      by (simp add: Map_get_None_iff)
    also have "\<dots> \<longleftrightarrow> (\<exists>item. Map_get k (data st) = Some item \<and> \<not> is_expired now item)"
      by (simp add: Map_get_cleanupExpired [OF assms] split: option.splits)
    finally show ?thesis .
  qed
  then show ?thesis by blast
qed

lemma distinct_keys_list:
  assumes "is_Map (data st)"
  shows "distinct (keys (fst (list now prefix_arg st)))"
proof -
  have "distinct (map fst (data (cleanupExpired now st)))"
    using is_Map_cleanupExpired [OF assms] by (simp add: is_Map_def)
  then have "distinct (filter (\<lambda>key. \<not> truthy prefix_arg \<or> startsWith key (ToString prefix_arg))
      (map fst (data (cleanupExpired now st))))"
    by (rule distinct_filter)
  moreover have "inj_on (\<lambda>n. \<lparr>name = n\<rparr>) A" for A :: "jsstring set"
    by (rule inj_onI) simp
  ultimately show ?thesis
    by (simp add: list_def Let_def distinct_map)
qed

lemma spec_list_eq:
  assumes "is_Map m"
  shows "spec_list now prefixFilter m =
     {k. \<exists>item. map_of m k = Some item
          \<and> (case expiry item of None \<Rightarrow> True | Some e \<Rightarrow> \<not> e < int now)
          \<and> (case prefixFilter of None \<Rightarrow> True | Some p \<Rightarrow> prefix p k)}"
proof -
  have d: "distinct (map fst m)" using assms by (simp add: is_Map_def)
  have "(k, item) \<in> set m \<longleftrightarrow> map_of m k = Some item" for k item
    using d by simp
  then show ?thesis
    unfolding spec_list_def by force
qed

lemma is_expired_no_epoch:
  assumes "no_epoch_expiry m" and "map_of m k = Some item"
  shows "is_expired now item \<longleftrightarrow> \<not> (case expiry item of None \<Rightarrow> True | Some e \<Rightarrow> \<not> e < int now)"
proof -
  from assms(2) have "(k, item) \<in> set m" by (rule map_of_SomeD)
  with assms(1) have "expiry item \<noteq> Some 0" by (auto simp: no_epoch_expiry_def)
  then show ?thesis by (auto simp: is_expired_def split: option.splits)
qed

lemma names_list_eq:
  assumes "is_Map (data st)" and "no_epoch_expiry (data st)"
  shows "names (fst (list now prefix_arg st)) =
     {k. \<exists>item. map_of (data st) k = Some item
          \<and> (case expiry item of None \<Rightarrow> True | Some e \<Rightarrow> \<not> e < int now)
          \<and> (\<not> truthy prefix_arg \<or> prefix (ToString prefix_arg) k)}"
proof -
  have "names (fst (list now prefix_arg st)) =
     {k. \<exists>item. map_of (data st) k = Some item \<and> \<not> is_expired now item
          \<and> (\<not> truthy prefix_arg \<or> prefix (ToString prefix_arg) k)}"
    by (auto simp: names_list keys_cleanupExpired_eq [OF assms(1)] Map_get_def startsWith_def)
  also have "\<dots> = {k. \<exists>item. map_of (data st) k = Some item
          \<and> (case expiry item of None \<Rightarrow> True | Some e \<Rightarrow> \<not> e < int now)
          \<and> (\<not> truthy prefix_arg \<or> prefix (ToString prefix_arg) k)}"
    using is_expired_no_epoch [OF assms(2)] by blast
  finally show ?thesis .
qed

text \<open>
  Away from the expiry \<open>0\<close>, \<open>list\<close> is the \<open>list\<close> of the specification: for every prefix
  string \<open>p\<close>, \<open>list(p)\<close> names exactly the keys whose entry has no expiry in the past and
  that start with \<open>p\<close>, and \<open>list()\<close> names exactly the keys whose entry has no expiry in the
  past. Each key is wrapped as a \<open>{name}\<close> descriptor, and none is named twice.
\<close>

theorem list_refines_spec_list:
  assumes "is_Map (data st)" and "no_epoch_expiry (data st)"
  shows "names (fst (list now (PrefixString p) st)) = spec_list now (Some p) (data st)
       \<and> names (fst (list now Undefined st)) = spec_list now None (data st)
       \<and> names (fst (list now (PrefixString p) st)) =
           {k. \<exists>item. map_of (data st) k = Some item
                \<and> (case expiry item of None \<Rightarrow> True | Some e \<Rightarrow> int now \<le> e)
                \<and> prefix p k}
       \<and> distinct (keys (fst (list now prefix_arg st)))"
proof (intro conjI)
  have t: "(\<not> truthy (PrefixString p) \<or> prefix (ToString (PrefixString p)) k) \<longleftrightarrow> prefix p k" for k
    by (cases p) simp_all
  show "names (fst (list now (PrefixString p) st)) = spec_list now (Some p) (data st)"
    by (simp only: names_list_eq [OF assms] spec_list_eq [OF assms(1)] t option.case)
  show "names (fst (list now Undefined st)) = spec_list now None (data st)"
    by (simp add: names_list_eq [OF assms] spec_list_eq [OF assms(1)])
  show "names (fst (list now (PrefixString p) st)) =
      {k. \<exists>item. map_of (data st) k = Some item
           \<and> (case expiry item of None \<Rightarrow> True | Some e \<Rightarrow> int now \<le> e)
           \<and> prefix p k}"
    by (simp only: names_list_eq [OF assms] t not_less)
  show "distinct (keys (fst (list now prefix_arg st)))"
    using assms(1) by (rule distinct_keys_list)
qed

theorem list_refines_spec_list_witness:
  "is_Map (data store1) \<and> no_epoch_expiry (data store1)
   \<and> names (fst (list 400 (PrefixString (js ''a'')) store1)) = {js ''a1''}
   \<and> names (fst (list 400 Undefined store1)) = {js ''a1'', js ''b''}
   \<and> names (fst (list 1000 Undefined store1)) = {js ''a1''}
   \<and> spec_list 400 (Some (js ''a'')) (data store1) = {js ''a1''}"
  using list_refines_spec_list [where st = store1 and now = 400 and p = "js ''a''"]
  by (simp add: eval_defs spec_list_def no_epoch_expiry_def)

text \<open>
  C6 requires that \<open>list(p)\<close> names exactly the live keys that start with \<open>p\<close> and
  \<open>list()\<close> exactly the live keys. The code misses the expiry timestamp \<open>0\<close>, which
  \<open>cleanupExpired\<close> takes for no expiry: a minute after the two \<open>put\<close>s of
  \<open>store_epoch\<close>, the expiry of \<open>a1\<close> has passed and only \<open>b\<close> is live, yet \<open>list()\<close> names
  \<open>a1\<close> and \<open>b\<close>, and \<open>list("a")\<close> names \<open>a1\<close>, where the specification names \<open>b\<close> and no
  key.
\<close>

theorem list_names_expiry_zero:
  "Map_get (js ''a1'') (data store_epoch) = Some \<lparr>val = js ''x'', expiry = Some 0\<rparr>
   \<and> Map_get (js ''b'') (data store_epoch) = Some \<lparr>val = js ''y'', expiry = None\<rparr>
   \<and> (0 :: int) < int 1762000060000
   \<and> names (fst (list 1762000060000 Undefined store_epoch)) = {js ''a1'', js ''b''}
   \<and> spec_list 1762000060000 None (data store_epoch) = {js ''b''}
   \<and> names (fst (list 1762000060000 (PrefixString (js ''a'')) store_epoch)) = {js ''a1''}
   \<and> spec_list 1762000060000 (Some (js ''a'')) (data store_epoch) = {}"
  by (simp add: store_epoch_def eval_defs spec_list_def) 

theorem list_names_expiry_zero_witness:
  "names (fst (list 1762000060000 Undefined store_epoch))
     \<noteq> spec_list 1762000060000 None (data store_epoch)
   \<and> names (fst (list 1762000060000 (PrefixString (js ''a'')) store_epoch))
     \<noteq> spec_list 1762000060000 (Some (js ''a'')) (data store_epoch)"
  using list_names_expiry_zero by (simp add: js_def)

subsection \<open>Persistence\<close>

lemma Map_set_fresh: "k \<notin> fst ` set m \<Longrightarrow> Map_set k v m = m @ [(k, v)]"
  by (induction m) auto

lemma foldl_Map_set_distinct:
  "is_Map (acc @ es) \<Longrightarrow> foldl (\<lambda>m (k, v). Map_set k v m) acc es = acc @ es"
proof (induction es arbitrary: acc)
  case Nil
  then show ?case by simp
next
  case (Cons p es)
  obtain k v where p: "p = (k, v)" by (cases p)
  from Cons.prems have fresh: "k \<notin> fst ` set acc"
    by (auto simp: is_Map_def p)
  from Cons.prems have "is_Map ((acc @ [(k, v)]) @ es)"
    by (simp add: p)
  from Cons.IH [OF this] show ?case
    by (simp add: p Map_set_fresh [OF fresh])
qed

lemma new_Map_distinct: "is_Map es \<Longrightarrow> new_Map es = es"
  using foldl_Map_set_distinct [of "[]" es] by (simp add: new_Map_def)

lemma Object_fromEntries_distinct: "is_Map es \<Longrightarrow> Object_fromEntries es = es"
  using foldl_Map_set_distinct [of "[]" es] by (simp add: Object_fromEntries_def)

lemma is_Map_foldl_Map_set:
  "is_Map acc \<Longrightarrow> is_Map (foldl (\<lambda>m (k, v). Map_set k v m) acc es)"
proof (induction es arbitrary: acc)
  case Nil
  then show ?case by simp
next
  case (Cons p es)
  then show ?case by (cases p) (simp add: is_Map_Map_set)
qed

lemma is_Map_new_Map: "is_Map (new_Map es)"
proof -
  have "is_Map ([] :: ('a \<times> 'b) list)" by (simp add: is_Map_def)
  then show ?thesis unfolding new_Map_def by (rule is_Map_foldl_Map_set)
qed

lemma set_Object_entries: "set (Object_entries m) = set m"
  by (auto simp: Object_entries_def)

lemma is_Map_Object_entries:
  assumes "is_Map m"
  shows "is_Map (Object_entries m)"
proof -
  from assms have d: "distinct m" and i: "inj_on fst (set m)"
    by (simp_all add: is_Map_def distinct_map)
  have "distinct (Object_entries m)"
    using d by (auto simp: Object_entries_def)
  with i show ?thesis
    by (simp add: is_Map_def distinct_map set_Object_entries)
qed

lemma map_of_Object_entries:
  assumes "is_Map m"
  shows "map_of (Object_entries m) = map_of m"
proof -
  have "distinct (map fst (Object_entries m))"
    using is_Map_Object_entries [OF assms] by (simp add: is_Map_def)
  moreover have "distinct (map fst m)"
    using assms by (simp add: is_Map_def)
  ultimately show ?thesis
    by (simp add: map_of_inject_set set_Object_entries)
qed

lemma in_sync_saveToDisk:
  assumes "is_Map (data st)" and "dir_exists (fs st)" and "write_ok (fs st)"
  shows "in_sync (saveToDisk st)"
proof -
  let ?file = "Object_entries (Object_fromEntries (data st))"
  have f: "?file = Object_entries (data st)"
    using assms(1) by (simp add: Object_fromEntries_distinct)
  have m1: "is_Map ?file" unfolding f using assms(1) by (rule is_Map_Object_entries)
  have m2: "is_Map (Object_entries ?file)" using m1 by (rule is_Map_Object_entries)
  have "map_of (new_Map (Object_entries ?file)) = map_of (Object_entries ?file)"
    using m2 by (simp add: new_Map_distinct)
  also have "\<dots> = map_of ?file" using m1 by (rule map_of_Object_entries)
  also have "\<dots> = map_of (data st)" unfolding f using assms(1) by (rule map_of_Object_entries)
  finally show ?thesis
    using assms by (simp add: in_sync_def saveToDisk_def persisted_def)
qed

lemma cleanupExpired_cases:
  "cleanupExpired now st =
     (if expired_keys now (data st) \<noteq> {}
      then saveToDisk (st\<lparr>data := filter (\<lambda>(k, v). k \<notin> expired_keys now (data st)) (data st)\<rparr>)
      else st)"
  by (simp add: cleanupExpired_def cleanup_loop_eq)

lemma in_sync_cleanupExpired:
  assumes "in_sync st"
  shows "in_sync (cleanupExpired now st)"
proof (cases "expired_keys now (data st) = {}")
  case True
  then show ?thesis using assms by (simp add: cleanupExpired_cases)
next
  case False
  let ?st = "st\<lparr>data := filter (\<lambda>(k, v). k \<notin> expired_keys now (data st)) (data st)\<rparr>"
  from assms have "is_Map (data ?st)" "dir_exists (fs ?st)" "write_ok (fs ?st)"
    by (simp_all add: in_sync_def is_Map_filter)
  then have "in_sync (saveToDisk ?st)" by (rule in_sync_saveToDisk)
  with False show ?thesis by (simp add: cleanupExpired_cases)
qed

lemma in_sync_put:
  assumes "in_sync st"
  shows "in_sync (put now k v options st)"
proof -
  let ?st = "st\<lparr>data := Map_set k \<lparr>val = (case v of ArrayBufferValue b \<Rightarrow> TextDecoder_decode b
                                               | StringValue s \<Rightarrow> s),
                                 expiry = put_expiry now options\<rparr> (data st)\<rparr>"
  from assms have "is_Map (data ?st)" "dir_exists (fs ?st)" "write_ok (fs ?st)"
    by (simp_all add: in_sync_def is_Map_Map_set)
  then have "in_sync (saveToDisk ?st)" by (rule in_sync_saveToDisk)
  then show ?thesis by (simp add: put_def Let_def)
qed

lemma in_sync_delete:
  assumes "in_sync st"
  shows "in_sync (delete k st)"
proof -
  let ?st = "st\<lparr>data := Map_delete k (data st)\<rparr>"
  from assms have "is_Map (data ?st)" "dir_exists (fs ?st)" "write_ok (fs ?st)"
    by (simp_all add: in_sync_def is_Map_Map_delete)
  then have "in_sync (saveToDisk ?st)" by (rule in_sync_saveToDisk)
  then show ?thesis by (simp add: delete_def)
qed

lemma in_sync_step: "in_sync st \<Longrightarrow> in_sync (step JSON_parse c st)"
proof (cases c)
  case (Pair now cl)
  assume "in_sync st"
  then show ?thesis unfolding Pair
    by (cases cl)
       (simp_all add: get_def list_def Let_def in_sync_cleanupExpired in_sync_put in_sync_delete)
qed

lemma in_sync_run: "in_sync st \<Longrightarrow> in_sync (run JSON_parse cs st)"
  by (induction cs arbitrary: st) (simp_all add: in_sync_step)

lemma constructor_cases:
  "constructor f c =
     (if \<not> dir_exists f \<and> \<not> mkdir_ok f then Inl MkdirError
      else Inr \<lparr>data = persisted f, fs = f\<lparr>dir_exists := True\<rparr>,
                console = (if content f \<noteq> NoFile \<and> (\<forall>obj. content f \<noteq> JsonObject obj)
                           then c @ [Warn_load_failed] else c)\<rparr>)"
  by (cases "content f")
     (simp_all add: constructor_def ensureStorageDirectory_def loadFromDisk_def persisted_def)

lemma in_sync_constructor:
  assumes "constructor f c = Inr st" and "write_ok f"
  shows "in_sync st"
proof -
  from assms(1) have st: "st = \<lparr>data = persisted f, fs = f\<lparr>dir_exists := True\<rparr>,
                console = (if content f \<noteq> NoFile \<and> (\<forall>obj. content f \<noteq> JsonObject obj)
                           then c @ [Warn_load_failed] else c)\<rparr>"
    by (auto simp: constructor_cases split: if_splits)
  have "is_Map (persisted f)"
    by (cases "content f") (simp_all add: persisted_def is_Map_new_Map, simp_all add: is_Map_def)
  then show ?thesis
    using assms(2) unfolding st by (simp add: in_sync_def persisted_def is_Map_def)
qed

lemma get_cong:
  assumes "is_Map (data a)" and "is_Map (data b)" and "map_of (data a) = map_of (data b)"
  shows "fst (get JSON_parse now k type a) = fst (get JSON_parse now k type b)"
proof -
  have "Map_get k (data a) = Map_get k (data b)"
    using assms(3) by (simp add: Map_get_def)
  then have "Map_get k (data (cleanupExpired now a)) = Map_get k (data (cleanupExpired now b))"
    by (simp only: Map_get_cleanupExpired [OF assms(1)] Map_get_cleanupExpired [OF assms(2)])
  then show ?thesis by (simp add: get_def Let_def)
qed

lemma names_list_cong:
  assumes "is_Map (data a)" and "is_Map (data b)" and "map_of (data a) = map_of (data b)"
  shows "names (fst (list now prefix_arg a)) = names (fst (list now prefix_arg b))"
proof -
  have "Map_get k (data a) = Map_get k (data b)" for k
    using assms(3) by (simp add: Map_get_def)
  then show ?thesis
    by (simp only: names_list keys_cleanupExpired_eq [OF assms(1)]
        keys_cleanupExpired_eq [OF assms(2)])
qed

lemma restart_in_sync:
  assumes "in_sync st"
  shows "\<exists>st'. restart st = Inr st' \<and> is_Map (data st') \<and> map_of (data st') = map_of (data st)"
proof -
  from assms have d: "dir_exists (fs st)" and p: "map_of (persisted (fs st)) = map_of (data st)"
    by (simp_all add: in_sync_def)
  have "is_Map (persisted (fs st))"
    by (cases "content (fs st)") (simp_all add: persisted_def is_Map_new_Map, simp_all add: is_Map_def)
  with d p show ?thesis
    by (simp add: restart_def constructor_cases)
qed

text \<open>
  C9: a store is constructed on a file system whose writes succeed, and any sequence of
  calls runs on it. A new store constructed afterwards on the same path holds the same
  mapping as the old one, so it answers every \<open>get\<close> and every \<open>list\<close> as the old store
  would have: the entries written before the restart are restored, and those that are
  not expired are returned. For example, after \<open>put("a", "1")\<close> a fresh store answers
  \<open>get("a")\<close> with \<open>"1"\<close>.
\<close>

theorem restart_restores:
  assumes "constructor f c = Inr st" and "write_ok f"
  shows "\<exists>st'. restart (run JSON_parse cs st) = Inr st'
           \<and> map_of (data st') = map_of (data (run JSON_parse cs st))
           \<and> (\<forall>now k type. fst (get JSON_parse now k type st')
                              = fst (get JSON_parse now k type (run JSON_parse cs st)))
           \<and> (\<forall>now prefix_arg. names (fst (list now prefix_arg st'))
                              = names (fst (list now prefix_arg (run JSON_parse cs st))))"
proof -
  let ?st = "run JSON_parse cs st"
  have "in_sync st" using assms by (rule in_sync_constructor)
  then have s: "in_sync ?st" by (rule in_sync_run)
  then have m: "is_Map (data ?st)" by (simp add: in_sync_def)
  from restart_in_sync [OF s] obtain st' where r: "restart ?st = Inr st'"
    and m': "is_Map (data st')" and e: "map_of (data st') = map_of (data ?st)"
    by blast
  show ?thesis
    using r e get_cong [OF m' m e, where JSON_parse = JSON_parse]
      names_list_cong [OF m' m e] by simp
qed

theorem restart_restores_witness:
  "constructor disk0 [] = Inr store0 \<and> write_ok disk0
   \<and> (\<exists>st'. restart (run no_json [(1000, Put (js ''a'') (StringValue (js ''1'')) None)] store0) = Inr st'
           \<and> fst (get no_json 2000 (js ''a'') None st') = Inr (String (js ''1'')))"
proof -
  have c: "constructor disk0 [] = Inr store0"
    by (simp add: load_defs store0_def disk0_def)
  have w: "write_ok disk0" by (simp add: disk0_def)
  have g: "fst (get no_json 2000 (js ''a'') None
      (run no_json [(1000, Put (js ''a'') (StringValue (js ''1'')) None)] store0))
      = Inr (String (js ''1''))"
    by (simp add: eval_defs)
  from restart_restores [OF c w, of no_json "[(1000, Put (js ''a'') (StringValue (js ''1'')) None)]"]
  obtain st' where "restart (run no_json [(1000, Put (js ''a'') (StringValue (js ''1'')) None)] store0) = Inr st'"
    and "\<forall>now k type. fst (get no_json now k type st')
          = fst (get no_json now k type (run no_json [(1000, Put (js ''a'') (StringValue (js ''1'')) None)] store0))"
    by blast
  with g c w show ?thesis by auto
qed

text \<open>
  C8: the constructor fails exactly when the directory is missing and cannot be made,
  whatever the backing file holds. When the file is absent the store starts with an empty
  map and logs nothing; when the file exists and is not JSON it logs a warning and starts
  with an empty map; in both cases the store is usable: a \<open>put\<close> followed by a \<open>get\<close>
  returns the value put.
\<close>

theorem construction_absorbs_bad_file:
  "((\<exists>e. constructor f c = Inl e) \<longleftrightarrow> \<not> dir_exists f \<and> \<not> mkdir_ok f)
   \<and> ((dir_exists f \<or> mkdir_ok f) \<and> (content f = NoFile \<or> content f = NotJson) \<longrightarrow>
        (\<exists>st. constructor f c = Inr st \<and> data st = []
           \<and> console st = (if content f = NotJson then c @ [Warn_load_failed] else c)
           \<and> (\<forall>now later k v. fst (get JSON_parse later k None
                                      (put now k (StringValue v) None st)) = Inr (String v))))"
proof (intro conjI impI)
  show "(\<exists>e. constructor f c = Inl e) \<longleftrightarrow> \<not> dir_exists f \<and> \<not> mkdir_ok f"
    by (simp add: constructor_cases)
next
  assume a: "(dir_exists f \<or> mkdir_ok f) \<and> (content f = NoFile \<or> content f = NotJson)"
  then obtain st where st: "constructor f c = Inr st" and d: "data st = []"
    and l: "console st = (if content f = NotJson then c @ [Warn_load_failed] else c)"
    by (auto simp: constructor_cases persisted_def)
  have "is_Map (data st)" by (simp add: d is_Map_def)
  then have "fst (get JSON_parse later k None (put now k (StringValue v) None st)) = Inr (String v)"
    for now later k v
    by (rule put_then_get) (simp_all add: put_expiry_def)
  with st d l show "\<exists>st. constructor f c = Inr st \<and> data st = []
           \<and> console st = (if content f = NotJson then c @ [Warn_load_failed] else c)
           \<and> (\<forall>now later k v. fst (get JSON_parse later k None
                                      (put now k (StringValue v) None st)) = Inr (String v))"
    by blast
qed

theorem construction_absorbs_bad_file_witness:
  "(\<exists>st. constructor disk0 [] = Inr st \<and> data st = [] \<and> console st = [])
   \<and> (\<exists>st. constructor disk_garbage [] = Inr st \<and> data st = []
          \<and> console st = [Warn_load_failed]
          \<and> fst (get no_json 2 (js ''a'') None (put 1 (js ''a'') (StringValue (js ''1'')) None st))
              = Inr (String (js ''1'')))"
  using construction_absorbs_bad_file [where f = disk0 and c = "[]" and JSON_parse = no_json]
    construction_absorbs_bad_file [where f = disk_garbage and c = "[]" and JSON_parse = no_json]
  by (simp add: disk0_def disk_garbage_def) blast

subsection \<open>Buffers through the text codecs\<close>

text \<open>
  The UTF-8 decoder reads back what the encoder writes for scalar values; the same holds
  of the UTF-16 code units of a string.
\<close>

lemma lead_mod: fixes h :: nat assumes "h < n" and "b mod n = 0" shows "(b + h) mod n = h"
proof -
  have "(b + h) mod n = (b mod n + h mod n) mod n" by (rule mod_add_eq [symmetric])
  with assms show ?thesis by simp
qed

lemma cont_mod: fixes l :: nat assumes "l < 64" shows "(128 + l) mod 64 = l"
  using assms by (rule lead_mod) simp

lemma utf8_decoder_one:
  assumes "c < 0x80"
  shows "utf8_decoder 0 0 0 0x80 0xBF (utf8_bytes c @ rest) = c # utf8_decoder 0 0 0 0x80 0xBF rest"
  using assms by (simp add: utf8_bytes_def)

lemma utf8_decoder_two:
  assumes "0x80 \<le> c" and "c < 0x800"
  shows "utf8_decoder 0 0 0 0x80 0xBF (utf8_bytes c @ rest) = c # utf8_decoder 0 0 0 0x80 0xBF rest"
proof -
  define h where "h = c div 64"
  define l where "l = c mod 64"
  have c: "h * 64 + l = c" by (simp add: h_def l_def)
  have h: "2 \<le> h" "h < 32" using assms by (simp_all add: h_def)
  have l: "l < 64" by (simp add: l_def)
  have m1: "(192 + h) mod 32 = h" using h(2) by (rule lead_mod) simp
  have "utf8_bytes c = [192 + h, 128 + l]"
    using assms by (simp add: utf8_bytes_def h_def l_def)
  then show ?thesis using h l by (simp add: m1 cont_mod c)
qed

lemma utf8_decoder_three:
  assumes "0x800 \<le> c" and "c < 0x10000" and "scalar_value c"
  shows "utf8_decoder 0 0 0 0x80 0xBF (utf8_bytes c @ rest) = c # utf8_decoder 0 0 0 0x80 0xBF rest"
proof -
  define q where "q = c div 64"
  define h where "h = q div 64"
  define m where "m = q mod 64"
  define l where "l = c mod 64"
  have q: "q * 64 + l = c" by (simp add: q_def l_def)
  have hm: "h * 64 + m = q" by (simp add: h_def m_def)
  have d: "c div 4096 = h" by (simp add: h_def q_def div_mult2_eq)
  have qb: "32 \<le> q" "q < 1024" using assms(1,2) by (simp_all add: q_def)
  have h: "h < 16" using qb by (simp add: h_def)
  have m: "m < 64" by (simp add: m_def)
  have l: "l < 64" by (simp add: l_def)
  have lo: "32 \<le> m" if "h = 0" using that qb hm by simp
  have hi: "m < 32" if "h = 13"
  proof -
    from that hm m have "832 \<le> q" "q < 896" by simp_all
    then have "0xD000 \<le> c" "c < 0xE000" using q l by simp_all
    with assms(3) have "c < 0xD800" by (simp add: scalar_value_def)
    then have "q < 864" by (simp add: q_def)
    with that hm show ?thesis by simp
  qed
  have m1: "(224 + h) mod 16 = h" using h by (rule lead_mod) simp
  have b: "utf8_bytes c = [224 + h, 128 + m, 128 + l]"
    using assms(1,2) by (simp add: utf8_bytes_def d) (simp add: m_def l_def q_def)
  consider "h = 0" | "h = 13" | "h \<noteq> 0" "h \<noteq> 13" by blast
  then show ?thesis
  proof cases
    case 1
    with lo have "32 \<le> m" by simp
    moreover from 1 hm q have "m * 64 + l = c" by simp
    ultimately show ?thesis using 1 m l unfolding b by (simp add: cont_mod)
  next
    case 2
    with hi have "m < 32" by simp
    moreover from 2 hm q have "(832 + m) * 64 + l = c" by simp
    ultimately show ?thesis using 2 m l unfolding b by (simp add: cont_mod)
  next
    case 3
    moreover from hm q have "(h * 64 + m) * 64 + l = c" by simp
    ultimately show ?thesis using h m l unfolding b by (simp add: m1 cont_mod)
  qed
qed

lemma utf8_decoder_four:
  assumes "0x10000 \<le> c" and "c < 0x110000"
  shows "utf8_decoder 0 0 0 0x80 0xBF (utf8_bytes c @ rest) = c # utf8_decoder 0 0 0 0x80 0xBF rest"
proof -
  define q where "q = c div 64"
  define r where "r = q div 64"
  define h where "h = r div 64"
  define n where "n = r mod 64"
  define m where "m = q mod 64"
  define l where "l = c mod 64"
  have q: "q * 64 + l = c" by (simp add: q_def l_def)
  have rm: "r * 64 + m = q" by (simp add: r_def m_def)
  have hn: "h * 64 + n = r" by (simp add: h_def n_def)
  have d1: "c div 4096 = r" by (simp add: r_def q_def div_mult2_eq)
  have d2: "c div 262144 = h" by (simp add: h_def r_def q_def div_mult2_eq)
  have rb: "16 \<le> r" "r < 272" using assms by (simp_all add: d1 [symmetric])
  have h: "h < 5" using rb by (simp add: h_def)
  have n: "n < 64" by (simp add: n_def)
  have m: "m < 64" by (simp add: m_def)
  have l: "l < 64" by (simp add: l_def)
  have lo: "16 \<le> n" if "h = 0" using that rb hn by simp
  have hi: "n < 16" if "h = 4" using that rb hn by simp
  have m1: "(240 + h) mod 8 = h" using h by (intro lead_mod) simp_all
  have b: "utf8_bytes c = [240 + h, 128 + n, 128 + m, 128 + l]"
    using assms by (simp add: utf8_bytes_def d1 d2) (simp add: n_def m_def l_def q_def)
  consider "h = 0" | "h = 4" | "h \<noteq> 0" "h \<noteq> 4" by blast
  then show ?thesis
  proof cases
    case 1
    with lo have "16 \<le> n" by simp
    moreover from 1 hn rm q have "(n * 64 + m) * 64 + l = c" by simp
    ultimately show ?thesis using 1 n m l unfolding b by (simp add: cont_mod)
  next
    case 2
    with hi have "n < 16" by simp
    moreover from 2 hn rm q have "((256 + n) * 64 + m) * 64 + l = c" by simp
    ultimately show ?thesis using 2 n m l unfolding b by (simp add: cont_mod)
  next
    case 3
    moreover from hn rm q have "((h * 64 + n) * 64 + m) * 64 + l = c" by simp
    ultimately show ?thesis using h n m l unfolding b by (simp add: m1 cont_mod)
  qed
qed

lemma utf8_decoder_bytes:
  assumes "scalar_value c"
  shows "utf8_decoder 0 0 0 0x80 0xBF (utf8_bytes c @ rest) = c # utf8_decoder 0 0 0 0x80 0xBF rest"
proof -
  from assms have "c < 0x110000" by (auto simp: scalar_value_def)
  then consider "c < 0x80" | "0x80 \<le> c" "c < 0x800"
    | "0x800 \<le> c" "c < 0x10000" | "0x10000 \<le> c" "c < 0x110000"
    by linarith
  then show ?thesis
  proof cases
    case 1
    then show ?thesis by (rule utf8_decoder_one)
  next
    case 2
    then show ?thesis by (rule utf8_decoder_two)
  next
    case 3
    then show ?thesis using assms by (rule utf8_decoder_three)
  next
    case 4
    then show ?thesis by (rule utf8_decoder_four)
  qed
qed

lemma utf8_decode_encode:
  assumes "\<forall>c \<in> set cs. scalar_value c"
  shows "utf8_decode (utf8_encode cs) = cs"
  using assms unfolding utf8_decode_def utf8_encode_def
  by (induction cs) (simp_all add: utf8_decoder_bytes)

lemma utf16_decode_unit:
  assumes "\<not> (0xD800 \<le> u \<and> u \<le> 0xDFFF)"
  shows "utf16_decode (u # us) = u # utf16_decode us"
  using assms by (cases us) auto

lemma utf16_decode_encode:
  assumes "\<forall>c \<in> set cs. scalar_value c"
  shows "utf16_decode (utf16_encode cs) = cs"
  using assms
proof (induction cs)
  case Nil
  then show ?case by simp
next
  case (Cons c cs)
  then have sc: "scalar_value c" and IH: "utf16_decode (utf16_encode cs) = cs"
    by simp_all
  show ?case
  proof (cases "c < 0x10000")
    case True
    with sc have "\<not> (0xD800 \<le> c \<and> c \<le> 0xDFFF)"
      by (auto simp: scalar_value_def)
    then show ?thesis using True IH by (simp add: utf16_decode_unit)
  next
    case False
    define x where "x = c - 0x10000"
    from False sc have x: "x < 1024 * 1024" and c: "c = 0x10000 + x"
      by (auto simp: scalar_value_def x_def)
    have hi: "x div 1024 < 1024" using x by simp
    have lo: "x mod 1024 < 1024" by simp
    have r: "x div 1024 * 1024 + x mod 1024 = x" by simp
    from False have "utf16_encode (c # cs) =
        (0xD800 + x div 1024) # (0xDC00 + x mod 1024) # utf16_encode cs"
      by (simp add: x_def)
    then show ?thesis using hi lo IH by (simp add: c r)
  qed
qed

lemma utf16_encode_units:
  assumes "\<forall>c \<in> set cs. scalar_value c"
  shows "\<forall>u \<in> set (utf16_encode cs). u < 2 ^ 16"
  using assms
proof (induction cs)
  case Nil
  then show ?case by simp
next
  case (Cons c cs)
  then have sc: "scalar_value c" and IH: "\<forall>u \<in> set (utf16_encode cs). u < 2 ^ 16"
    by simp_all
  show ?case
  proof (cases "c < 0x10000")
    case True
    then show ?thesis using IH by simp
  next
    case False
    from sc have "c - 0x10000 < 1024 * 1024" by (auto simp: scalar_value_def)
    then have "(c - 0x10000) div 1024 < 1024" by simp
    moreover have "(c - 0x10000) mod 1024 < 1024" by simp
    ultimately show ?thesis using False IH by simp
  qed
qed

lemma utf8_bytes_bound:
  assumes "c < 0x110000"
  shows "\<forall>b \<in> set (utf8_bytes c). b < 2 ^ 8"
proof -
  have "c div 64 mod 64 < 64" "c div 4096 mod 64 < 64" "c mod 64 < 64" by simp_all
  moreover have "c div 262144 < 5" using assms by simp
  moreover have "c < 0x800 \<Longrightarrow> c div 64 < 32" by simp
  moreover have "c < 0x10000 \<Longrightarrow> c div 4096 < 16" by simp
  ultimately show ?thesis by (auto simp: utf8_bytes_def)
qed

lemma utf8_encode_bytes:
  assumes "\<forall>c \<in> set cs. scalar_value c"
  shows "\<forall>b \<in> set (utf8_encode cs). b < 2 ^ 8"
proof -
  have "c < 0x110000" if "c \<in> set cs" for c
    using assms that by (auto simp: scalar_value_def)
  then show ?thesis
    using utf8_bytes_bound by (auto simp: utf8_encode_def)
qed

lemma unat_of_nat_list:
  assumes "\<forall>x \<in> set xs. x < 2 ^ LENGTH('a)"
  shows "map unat (map of_nat xs :: 'a::len word list) = xs"
  using assms by (induction xs) (simp_all add: unat_of_nat)

lemma TextEncoder_TextDecoder:
  assumes "\<forall>c \<in> set cs. scalar_value c" and "cs = [] \<or> hd cs \<noteq> 0xFEFF"
  shows "TextEncoder_encode (TextDecoder_decode (map of_nat (utf8_encode cs)))
         = map of_nat (utf8_encode cs)"
proof -
  have b: "map unat (map of_nat (utf8_encode cs) :: byte list) = utf8_encode cs"
    using utf8_encode_bytes [OF assms(1)] by (intro unat_of_nat_list) simp
  have s: "strip_bom cs = cs" using assms(2) by (cases cs) auto
  have u: "map unat (map of_nat (utf16_encode cs) :: jsstring) = utf16_encode cs"
    using utf16_encode_units [OF assms(1)] by (intro unat_of_nat_list) simp
  show ?thesis
    by (simp only: TextEncoder_encode_def TextDecoder_decode_def b
        utf8_decode_encode [OF assms(1)] s u utf16_decode_encode [OF assms(1)])
qed

lemma get_present_buffer:
  assumes "is_Map (data st)" and "Map_get k (data st) = Some item" and "\<not> is_expired now item"
  shows "fst (get JSON_parse now k (Some ArrayBuffer) st) = Inr (Buffer (TextEncoder_encode (val item)))"
  using assms by (simp add: get_def Let_def Map_get_cleanupExpired)

text \<open>
  C2, as amended: for every byte buffer \<open>b\<close> that is the UTF-8 encoding of a text (a
  sequence of Unicode scalar values) that does not begin with the byte order mark U+FEFF,
  \<open>put(k, b)\<close> with no TTL option followed by \<open>get(k, "arrayBuffer")\<close> returns a buffer
  whose bytes are those of \<open>b\<close>.
\<close>

theorem buffer_roundtrip:
  assumes "is_Map (data st)"
    and "options = None \<or> options = Some \<lparr>expirationTtl = None\<rparr>"
    and "\<forall>c \<in> set cs. scalar_value c" and "cs = [] \<or> hd cs \<noteq> 0xFEFF"
    and "b = map of_nat (utf8_encode cs)"
  shows "fst (get JSON_parse later k (Some ArrayBuffer) (put now k (ArrayBufferValue b) options st))
         = Inr (Buffer b)"
proof -
  let ?st = "put now k (ArrayBufferValue b) options st"
  let ?item = "\<lparr>val = TextDecoder_decode b, expiry = None\<rparr>"
  from assms(2) have e: "put_expiry now options = None"
    by (auto simp: put_expiry_def)
  have m: "is_Map (data ?st)" using assms(1) by (rule is_Map_put)
  have g: "Map_get k (data ?st) = Some ?item"
    by (simp add: Map_get_put e)
  have "\<not> is_expired later ?item" by (simp add: is_expired_def)
  with m g have "fst (get JSON_parse later k (Some ArrayBuffer) ?st)
      = Inr (Buffer (TextEncoder_encode (val ?item)))"
    by (rule get_present_buffer)
  moreover have "TextEncoder_encode (TextDecoder_decode b) = b"
    unfolding assms(5) using assms(3,4) by (rule TextEncoder_TextDecoder)
  ultimately show ?thesis by simp
qed

theorem buffer_roundtrip_witness:
  "[0x41, 0xC3, 0xA9, 0xE2, 0x82, 0xAC, 0xF0, 0x9F, 0x98, 0x80]
     = (map of_nat (utf8_encode [0x41, 0xE9, 0x20AC, 0x1F600]) :: byte list)
   \<and> fst (get no_json 2000 (js ''k'') (Some ArrayBuffer)
         (put 1000 (js ''k'')
           (ArrayBufferValue [0x41, 0xC3, 0xA9, 0xE2, 0x82, 0xAC, 0xF0, 0x9F, 0x98, 0x80]) None store0))
     = Inr (Buffer [0x41, 0xC3, 0xA9, 0xE2, 0x82, 0xAC, 0xF0, 0x9F, 0x98, 0x80])"
  using buffer_roundtrip [where st = store0 and options = None
      and cs = "[0x41, 0xE9, 0x20AC, 0x1F600]"
      and b = "[0x41, 0xC3, 0xA9, 0xE2, 0x82, 0xAC, 0xF0, 0x9F, 0x98, 0x80]"
      and JSON_parse = no_json and later = 2000 and k = "js ''k''" and now = 1000]
  by (simp add: store0_def is_Map_def scalar_value_def utf8_encode_def utf8_bytes_def)

text \<open>
  C2 as stated fails for buffers that are not such an encoding: \<open>put\<close> decodes the
  buffer as UTF-8 text, so the byte \<open>0xFF\<close> comes back as the three bytes of U+FFFD, and a
  leading byte order mark is dropped.
\<close>

theorem buffer_roundtrip_counterexample:
  "fst (get no_json 2000 (js ''k'') (Some ArrayBuffer)
         (put 1000 (js ''k'') (ArrayBufferValue [0xFF]) None store0))
     = Inr (Buffer [0xEF, 0xBF, 0xBD])
   \<and> fst (get no_json 2000 (js ''k'') (Some ArrayBuffer)
         (put 1000 (js ''k'') (ArrayBufferValue [0xFF]) None store0))
     \<noteq> Inr (Buffer [0xFF])
   \<and> fst (get no_json 2000 (js ''k'') (Some ArrayBuffer)
         (put 1000 (js ''k'') (ArrayBufferValue [0xEF, 0xBB, 0xBF, 0x41]) None store0))
     = Inr (Buffer [0x41])"
  by (simp add: eval_defs TextEncoder_encode_def TextDecoder_decode_def utf8_decode_def
      utf8_encode_def utf8_bytes_def)

end
